theory Spec2Isabelle
  imports Complex_Main "HOL-Library.Log_Nat"
begin

section \<open>The AvidaGP virtual CPU (hardware/AvidaGPOthello.h)\<close>

text \<open>
  A shallow embedding of the scope-structured execution engine of \<open>emp::AvidaGP\<close>.
  Conventions of the embedding:
  \<^item> \<open>size_t\<close> values (positions, scope ids, arguments) are natural numbers; an
    increment of a value that comes from an instruction argument or of the error
    counter is written with its wrap-around at \<open>2^64\<close> (\<open>size_t_inc\<close>); positions of the
    genome are bounded by the length of a vector in memory, so \<open>inst_ptr + 1\<close> is
    written without it;
  \<^item> a \<open>double\<close> is a real number and the arithmetic of the handlers is exact, with
    one exception: the decrement of the guard of \<open>Countdown\<close>, on which leaving a loop
    depends, is rounded to the nearest double (\<open>double_round\<close>);
  \<^item> an \<open>emp::vector\<close> is a list in the vector's order (\<open>back()\<close> is \<open>last\<close>,
    \<open>pop_back()\<close> is \<open>butlast\<close>, \<open>push_back(x)\<close> appends \<open>[x]\<close>);
  \<^item> an \<open>emp::array<T, N>\<close> has a fixed size: it is a function on indices and every
    access is guarded by \<open>i < N\<close>;
  \<^item> a failed \<open>emp_assert\<close>, an index out of range, \<open>back()\<close> of an empty vector and
    a conversion the language leaves undefined are results \<open>Inl e\<close>.
\<close>

subsection \<open>Data model\<close>

datatype error = AssertFail | OutOfRange | EmptyBack | BadCast

text \<open>\<open>ebind m f\<close> runs \<open>f\<close> on the result of \<open>m\<close> unless \<open>m\<close> failed.\<close>

abbreviation ebind :: "error + 'a \<Rightarrow> ('a \<Rightarrow> error + 'b) \<Rightarrow> error + 'b" where
  "ebind m f \<equiv> (case m of Inl e \<Rightarrow> Inl e | Inr x \<Rightarrow> f x)"

definition CPU_SIZE :: nat where "CPU_SIZE = 16"
definition INST_ARGS :: nat where "INST_ARGS = 3"
definition BOARD_SIZE :: nat where "BOARD_SIZE = 64"
definition PLAYER :: real where "PLAYER = 1"
definition OPPONENT :: real where "OPPONENT = - 1"
definition EMPTY :: real where "EMPTY = 0"

definition size_t_inc :: "nat \<Rightarrow> nat" where
  "size_t_inc n = (n + 1) mod 2 ^ 64"

text \<open>
  Modelled from the spec: the enumeration \<open>ScopeType\<close> is declared in InstLib.h, which is
  not among the sources; the spec names the kinds None, Root, Basic, Loop and Function.
\<close>

datatype ScopeType = NONE | ROOT | BASIC | LOOP | FUNCTION

datatype arg_set_t = Args (a0: nat) (a1: nat) (a2: nat)

definition arg_at :: "arg_set_t \<Rightarrow> nat \<Rightarrow> error + nat" where
  "arg_at args i =
     (if i = 0 then Inr (a0 args) else if i = 1 then Inr (a1 args)
      else if i = 2 then Inr (a2 args) else Inl OutOfRange)"

datatype Instruction = Instruction (inst_id: nat) (inst_args: arg_set_t)

record ScopeInfo =
  scope :: nat
  type :: ScopeType
  start_pos :: nat

record RegBackup =
  scope :: nat
  reg_id :: nat
  val :: real

type_synonym genome_t = "Instruction list"

text \<open>
  Modelled from the spec: the instruction catalog \<open>InstLib<AvidaGP>\<close> is declared in
  InstLib.h, which is not among the sources. The spec gives, per opcode, a name, an arity,
  a scope kind, the index of the argument that carries the scope depth, and a handler;
  \<open>AddInst\<close> is called in \<open>DefaultInstLib\<close> with the scope kind and scope argument
  last, and without them an instruction has kind \<open>NONE\<close>. A handler is named by a tag
  that \<open>ProcessInst\<close> dispatches on.
\<close>

datatype fun_t =
    F_Inc | F_Dec | F_Not | F_SetReg | F_Add | F_Sub | F_Mult | F_Div | F_Mod
  | F_TestEqu | F_TestNEqu | F_TestLess | F_If | F_While | F_Countdown | F_Break
  | F_Scope | F_Define | F_Call | F_SetMem | F_GetMem | F_CopyMem | F_ShiftMem
  | F_SetBoard | F_EndTurn | F_GetSquareCurr | F_GetValidAbove | F_GetValidBelow
  | F_GetValidLeft | F_GetValidRight | F_GetValidUL | F_GetValidUR | F_GetValidLL
  | F_GetValidLR | F_Input | F_Output | F_CopyVal | F_ScopeReg

record InstDef =
  name :: string
  fun_call :: fun_t
  num_args :: nat
  scope_type :: ScopeType
  scope_arg :: nat

type_synonym inst_lib_t = "InstDef list"

definition AddInst :: "inst_lib_t \<Rightarrow> string \<Rightarrow> fun_t \<Rightarrow> nat \<Rightarrow> ScopeType \<Rightarrow> nat \<Rightarrow> inst_lib_t" where
  "AddInst lib n f k st sa =
     lib @ [\<lparr>name = n, fun_call = f, num_args = k, scope_type = st, scope_arg = sa\<rparr>]"

definition GetScopeType :: "inst_lib_t \<Rightarrow> nat \<Rightarrow> error + ScopeType" where
  "GetScopeType lib i = (if i < length lib then Inr (scope_type (lib ! i)) else Inl OutOfRange)"

definition GetScopeArg :: "inst_lib_t \<Rightarrow> nat \<Rightarrow> error + nat" where
  "GetScopeArg lib i = (if i < length lib then Inr (scope_arg (lib ! i)) else Inl OutOfRange)"

definition GetFunCall :: "inst_lib_t \<Rightarrow> nat \<Rightarrow> error + fun_t" where
  "GetFunCall lib i = (if i < length lib then Inr (fun_call (lib ! i)) else Inl OutOfRange)"

record AvidaGP =
  inst_lib :: inst_lib_t
  genome :: genome_t
  regs :: "nat \<Rightarrow> real"
  inputs :: "int \<rightharpoonup> real"
  outputs :: "int \<rightharpoonup> real"
  mem :: "nat \<Rightarrow> (int \<rightharpoonup> real)"
  fun_starts :: "nat \<Rightarrow> int"
  inst_ptr :: nat
  scope_stack :: "ScopeInfo list"
  reg_stack :: "RegBackup list"
  call_stack :: "nat list"
  board :: "real list"
  errors :: nat
  traits :: "real list"

subsection \<open>Scope primitives\<close>

definition CurScope :: "AvidaGP \<Rightarrow> nat" where
  "CurScope hw = ScopeInfo.scope (last (scope_stack hw))"

definition CurScopeType :: "AvidaGP \<Rightarrow> ScopeType" where
  "CurScopeType hw = type (last (scope_stack hw))"

text \<open>The restore loop of \<open>ExitScope\<close>: while the newest backup belongs to the current scope.\<close>

function ExitScope_restore :: "AvidaGP \<Rightarrow> error + AvidaGP" where
  "ExitScope_restore hw =
     (if reg_stack hw \<noteq> [] \<and> RegBackup.scope (last (reg_stack hw)) = CurScope hw then
        (if reg_id (last (reg_stack hw)) < CPU_SIZE then
           ExitScope_restore
             (hw\<lparr>regs := (regs hw)(reg_id (last (reg_stack hw)) := val (last (reg_stack hw))),
                 reg_stack := butlast (reg_stack hw)\<rparr>)
         else Inl OutOfRange)
      else Inr hw)"
  by pat_completeness auto
termination
  by (relation "measure (\<lambda>hw. length (reg_stack hw))") auto

declare ExitScope_restore.simps [simp del]

definition ExitScope :: "AvidaGP \<Rightarrow> error + AvidaGP" where
  "ExitScope hw =
     (if \<not> length (scope_stack hw) > 1 then Inl AssertFail
      else if \<not> length (scope_stack hw) \<le> CPU_SIZE then Inl AssertFail
      else ebind (ExitScope_restore hw)
             (\<lambda>hw1. Inr (hw1\<lparr>scope_stack := butlast (scope_stack hw1)\<rparr>)))"

text \<open>\<open>genome[pos]\<close> on an \<open>emp::vector\<close>.\<close>

definition GetInst :: "AvidaGP \<Rightarrow> nat \<Rightarrow> error + Instruction" where
  "GetInst hw pos = (if pos < length (genome hw) then Inr (genome hw ! pos) else Inl OutOfRange)"

definition InstScope :: "AvidaGP \<Rightarrow> Instruction \<Rightarrow> error + nat" where
  "InstScope hw inst =
     ebind (GetScopeType (inst_lib hw) (inst_id inst)) (\<lambda>st.
       if st = NONE then Inr 0
       else ebind (GetScopeArg (inst_lib hw) (inst_id inst)) (\<lambda>sa.
              ebind (arg_at (inst_args inst) sa) (\<lambda>a. Inr (size_t_inc a))))"

text \<open>The forward scan of \<open>BypassScope\<close>.\<close>

function BypassScope_scan :: "AvidaGP \<Rightarrow> nat \<Rightarrow> error + AvidaGP" where
  "BypassScope_scan hw sc =
     (if inst_ptr hw + 1 < length (genome hw) then
        (let hw1 = hw\<lparr>inst_ptr := inst_ptr hw + 1\<rparr> in
         ebind (InstScope hw1 (genome hw1 ! inst_ptr hw1)) (\<lambda>test_scope.
           if test_scope \<noteq> 0 \<and> test_scope \<le> sc then Inr (hw1\<lparr>inst_ptr := inst_ptr hw1 - 1\<rparr>)
           else BypassScope_scan hw1 sc))
      else Inr hw)"
  by pat_completeness auto
termination
  by (relation "measure (\<lambda>(hw, s). length (genome hw) - inst_ptr hw)") auto

declare BypassScope_scan.simps [simp del]

definition BypassScope :: "AvidaGP \<Rightarrow> nat \<Rightarrow> error + AvidaGP" where
  "BypassScope hw scope0 =
     (let sc = size_t_inc scope0 in
      if scope_stack hw = [] then Inl EmptyBack
      else if CurScope hw < sc then Inr hw
      else ebind (ExitScope hw) (\<lambda>hw1. BypassScope_scan hw1 sc))"

lemma ExitScope_restore_scope_stack:
  "ExitScope_restore hw = Inr hw' \<Longrightarrow> scope_stack hw' = scope_stack hw"
proof (induction hw rule: ExitScope_restore.induct)
  case (1 hw)
  then show ?case
    by (subst (asm) (2) ExitScope_restore.simps) (auto split: if_splits)
qed

lemma ExitScope_scope_stack:
  "ExitScope hw = Inr hw' \<Longrightarrow> scope_stack hw' = butlast (scope_stack hw)"
  by (auto simp: ExitScope_def split: if_splits sum.splits dest: ExitScope_restore_scope_stack)

lemma ExitScope_length:
  "ExitScope hw = Inr hw' \<Longrightarrow> length (scope_stack hw') < length (scope_stack hw)"
  by (frule ExitScope_scope_stack) (auto simp: ExitScope_def split: if_splits)

text \<open>The two loops of \<open>ResetIP\<close>.\<close>

function ResetIP_exit :: "AvidaGP \<Rightarrow> error + AvidaGP" where
  "ResetIP_exit hw =
     (if length (scope_stack hw) > 1 then ebind (ExitScope hw) (\<lambda>hw1. ResetIP_exit hw1)
      else Inr hw)"
  by pat_completeness auto
termination
  by (relation "measure (\<lambda>hw. length (scope_stack hw))") (auto dest: ExitScope_length)

function ResetIP_restore :: "AvidaGP \<Rightarrow> error + AvidaGP" where
  "ResetIP_restore hw =
     (if reg_stack hw \<noteq> [] then
        (if reg_id (last (reg_stack hw)) < CPU_SIZE then
           ResetIP_restore
             (hw\<lparr>regs := (regs hw)(reg_id (last (reg_stack hw)) := val (last (reg_stack hw))),
                 reg_stack := butlast (reg_stack hw)\<rparr>)
         else Inl OutOfRange)
      else Inr hw)"
  by pat_completeness auto
termination
  by (relation "measure (\<lambda>hw. length (reg_stack hw))") auto

declare ResetIP_exit.simps [simp del] ResetIP_restore.simps [simp del]

definition ResetIP :: "AvidaGP \<Rightarrow> error + AvidaGP" where
  "ResetIP hw =
     ebind (ResetIP_exit (hw\<lparr>inst_ptr := 0\<rparr>)) (\<lambda>hw1.
       ebind (ResetIP_restore hw1) (\<lambda>hw2. Inr (hw2\<lparr>call_stack := []\<rparr>)))"

subsection \<open>Conversions and accessors\<close>

text \<open>\<open>hw.regs[i]\<close> on the array of \<open>CPU_SIZE\<close> registers, read and written.\<close>

definition reg_read :: "AvidaGP \<Rightarrow> nat \<Rightarrow> error + real" where
  "reg_read hw i = (if i < CPU_SIZE then Inr (regs hw i) else Inl OutOfRange)"

definition reg_write :: "AvidaGP \<Rightarrow> nat \<Rightarrow> real \<Rightarrow> error + AvidaGP" where
  "reg_write hw i v = (if i < CPU_SIZE then Inr (hw\<lparr>regs := (regs hw)(i := v)\<rparr>) else Inl OutOfRange)"

text \<open>
  The casts of the source: \<open>(int) d\<close> of a double truncates towards zero and is undefined
  outside the range of \<open>int\<close>; \<open>(size_t) i\<close> of an int is taken modulo \<open>2^64\<close>;
  \<open>(int) n\<close> of a \<open>size_t\<close> keeps the low 32 bits as a signed value; a bool becomes 1 or 0.
\<close>

definition double_to_int :: "real \<Rightarrow> error + int" where
  "double_to_int d =
     (if - (2 ^ 31) - 1 < d \<and> d < 2 ^ 31 then Inr (if 0 \<le> d then \<lfloor>d\<rfloor> else \<lceil>d\<rceil>)
      else Inl BadCast)"

definition double_to_size_t :: "real \<Rightarrow> error + nat" where
  "double_to_size_t d = (if - 1 < d \<and> d < 2 ^ 64 then Inr (nat \<lfloor>d\<rfloor>) else Inl BadCast)"

definition int_to_size_t :: "int \<Rightarrow> nat" where
  "int_to_size_t i = nat (i mod 2 ^ 64)"

definition size_t_to_int :: "nat \<Rightarrow> int" where
  "size_t_to_int n = (int n + 2 ^ 31) mod 2 ^ 32 - 2 ^ 31"

definition bool_to_double :: "bool \<Rightarrow> real" where
  "bool_to_double b = (if b then 1 else 0)"

text \<open>
  \<open>double_round x\<close> is the double nearest to \<open>x\<close>: 53 significant bits, a tie going to
  the neighbour whose last bit is 0. \<open>double_exp x\<close> is the binary exponent \<open>e\<close> of \<open>x\<close>,
  \<open>2^e \<le> |x| < 2^(e+1)\<close>, and \<open>double_ulp x\<close> the distance \<open>2^(e-52)\<close> between the
  doubles of that exponent. The range of the exponent is not bounded here; nothing is lost
  by that for \<open>x - 1\<close> with a finite double \<open>x\<close>, which never overflows and is exact
  whenever it is close to 0.
\<close>

definition round_even :: "real \<Rightarrow> int" where
  "round_even y =
     (let f = \<lfloor>y\<rfloor>; d = y - of_int f in
      if d < 1 / 2 then f else if 1 / 2 < d then f + 1 else if even f then f else f + 1)"

definition double_exp :: "real \<Rightarrow> int" where
  "double_exp x =
     (if 1 \<le> \<bar>x\<bar> then bitlen \<lfloor>\<bar>x\<bar>\<rfloor> - 1 else - bitlen (\<lceil>1 / \<bar>x\<bar>\<rceil> - 1))"

definition double_ulp :: "real \<Rightarrow> real" where
  "double_ulp x =
     (let e = double_exp x in if 52 \<le> e then 2 ^ nat (e - 52) else 1 / 2 ^ nat (52 - e))"

definition double_round :: "real \<Rightarrow> real" where
  "double_round x =
     (if x = 0 then 0 else of_int (round_even (x / double_ulp x)) * double_ulp x)"

subsection \<open>Instructions that do not call UpdateScope\<close>

definition Inst_Inc :: "AvidaGP \<Rightarrow> arg_set_t \<Rightarrow> error + AvidaGP" where
  "Inst_Inc hw args = ebind (reg_read hw (a0 args)) (\<lambda>x. reg_write hw (a0 args) (x + 1))"

definition Inst_Dec :: "AvidaGP \<Rightarrow> arg_set_t \<Rightarrow> error + AvidaGP" where
  "Inst_Dec hw args = ebind (reg_read hw (a0 args)) (\<lambda>x. reg_write hw (a0 args) (x - 1))"

definition Inst_Not :: "AvidaGP \<Rightarrow> arg_set_t \<Rightarrow> error + AvidaGP" where
  "Inst_Not hw args =
     ebind (reg_read hw (a0 args)) (\<lambda>x. reg_write hw (a0 args) (bool_to_double (x = 0)))"

definition Inst_SetReg :: "AvidaGP \<Rightarrow> arg_set_t \<Rightarrow> error + AvidaGP" where
  "Inst_SetReg hw args = reg_write hw (a0 args) (real (a1 args))"

definition Inst_Add :: "AvidaGP \<Rightarrow> arg_set_t \<Rightarrow> error + AvidaGP" where
  "Inst_Add hw args =
     ebind (reg_read hw (a0 args)) (\<lambda>x. ebind (reg_read hw (a1 args)) (\<lambda>y.
       reg_write hw (a2 args) (x + y)))"

definition Inst_Sub :: "AvidaGP \<Rightarrow> arg_set_t \<Rightarrow> error + AvidaGP" where
  "Inst_Sub hw args =
     ebind (reg_read hw (a0 args)) (\<lambda>x. ebind (reg_read hw (a1 args)) (\<lambda>y.
       reg_write hw (a2 args) (x - y)))"

definition Inst_Mult :: "AvidaGP \<Rightarrow> arg_set_t \<Rightarrow> error + AvidaGP" where
  "Inst_Mult hw args =
     ebind (reg_read hw (a0 args)) (\<lambda>x. ebind (reg_read hw (a1 args)) (\<lambda>y.
       reg_write hw (a2 args) (x * y)))"

definition Inst_Div :: "AvidaGP \<Rightarrow> arg_set_t \<Rightarrow> error + AvidaGP" where
  "Inst_Div hw args =
     ebind (reg_read hw (a1 args)) (\<lambda>denom.
       if denom = 0 then Inr (hw\<lparr>errors := size_t_inc (errors hw)\<rparr>)
       else ebind (reg_read hw (a0 args)) (\<lambda>x. reg_write hw (a2 args) (x / denom)))"

definition Inst_Mod :: "AvidaGP \<Rightarrow> arg_set_t \<Rightarrow> error + AvidaGP" where
  "Inst_Mod hw args =
     ebind (reg_read hw (a1 args)) (\<lambda>base.
       if base = 0 then Inr (hw\<lparr>errors := size_t_inc (errors hw)\<rparr>)
       else ebind (reg_read hw (a0 args)) (\<lambda>x. reg_write hw (a2 args) (x / base)))"

definition Inst_TestEqu :: "AvidaGP \<Rightarrow> arg_set_t \<Rightarrow> error + AvidaGP" where
  "Inst_TestEqu hw args =
     ebind (reg_read hw (a0 args)) (\<lambda>x. ebind (reg_read hw (a1 args)) (\<lambda>y.
       reg_write hw (a2 args) (bool_to_double (x = y))))"

definition Inst_TestNEqu :: "AvidaGP \<Rightarrow> arg_set_t \<Rightarrow> error + AvidaGP" where
  "Inst_TestNEqu hw args =
     ebind (reg_read hw (a0 args)) (\<lambda>x. ebind (reg_read hw (a1 args)) (\<lambda>y.
       reg_write hw (a2 args) (bool_to_double (x \<noteq> y))))"

definition Inst_TestLess :: "AvidaGP \<Rightarrow> arg_set_t \<Rightarrow> error + AvidaGP" where
  "Inst_TestLess hw args =
     ebind (reg_read hw (a0 args)) (\<lambda>x. ebind (reg_read hw (a1 args)) (\<lambda>y.
       reg_write hw (a2 args) (bool_to_double (x < y))))"

definition Inst_Break :: "AvidaGP \<Rightarrow> arg_set_t \<Rightarrow> error + AvidaGP" where
  "Inst_Break hw args = BypassScope hw (a0 args)"

definition Inst_Input :: "AvidaGP \<Rightarrow> arg_set_t \<Rightarrow> error + AvidaGP" where
  "Inst_Input hw args =
     ebind (reg_read hw (a0 args)) (\<lambda>x. ebind (double_to_int x) (\<lambda>input_id.
       reg_write hw (a1 args) (case inputs hw input_id of None \<Rightarrow> 0 | Some v \<Rightarrow> v)))"

definition Inst_Output :: "AvidaGP \<Rightarrow> arg_set_t \<Rightarrow> error + AvidaGP" where
  "Inst_Output hw args =
     ebind (reg_read hw (a1 args)) (\<lambda>x. ebind (double_to_int x) (\<lambda>output_id.
       ebind (reg_read hw (a0 args)) (\<lambda>v.
         Inr (hw\<lparr>outputs := (outputs hw)(output_id \<mapsto> v)\<rparr>))))"

definition Inst_CopyVal :: "AvidaGP \<Rightarrow> arg_set_t \<Rightarrow> error + AvidaGP" where
  "Inst_CopyVal hw args = ebind (reg_read hw (a0 args)) (\<lambda>x. reg_write hw (a1 args) x)"

definition Inst_ScopeReg :: "AvidaGP \<Rightarrow> arg_set_t \<Rightarrow> error + AvidaGP" where
  "Inst_ScopeReg hw args =
     (if scope_stack hw = [] then Inl EmptyBack
      else ebind (reg_read hw (a0 args)) (\<lambda>x.
        Inr (hw\<lparr>reg_stack := reg_stack hw @
               [\<lparr>RegBackup.scope = CurScope hw, reg_id = a0 args, val = x\<rparr>]\<rparr>)))"

subsection \<open>Memory, traits and the Othello board\<close>

definition vec_at :: "'a list \<Rightarrow> nat \<Rightarrow> error + 'a" where
  "vec_at xs i = (if i < length xs then Inr (xs ! i) else Inl OutOfRange)"

definition resize :: "'a list \<Rightarrow> nat \<Rightarrow> 'a \<Rightarrow> 'a list" where
  "resize xs n v = take n xs @ replicate (n - length xs) v"

definition SetTrait :: "AvidaGP \<Rightarrow> nat \<Rightarrow> real \<Rightarrow> AvidaGP" where
  "SetTrait hw i v =
     (let t = (if i \<ge> length (traits hw) then resize (traits hw) (i + 1) 0 else traits hw)
      in hw\<lparr>traits := t[i := v]\<rparr>)"

definition GetTrait :: "AvidaGP \<Rightarrow> nat \<Rightarrow> error + real" where
  "GetTrait hw i = vec_at (traits hw) i"

definition EndTurn :: "AvidaGP \<Rightarrow> AvidaGP" where
  "EndTurn hw = SetTrait hw 100 1"

definition GetMem :: "AvidaGP \<Rightarrow> nat \<Rightarrow> int \<Rightarrow> error + real" where
  "GetMem hw block posReg =
     (if block < CPU_SIZE then Inr (case mem hw block posReg of None \<Rightarrow> 0 | Some v \<Rightarrow> v)
      else Inl OutOfRange)"

definition SetMem :: "AvidaGP \<Rightarrow> nat \<Rightarrow> real \<Rightarrow> real \<Rightarrow> error + AvidaGP" where
  "SetMem hw block posReg v =
     (if block < CPU_SIZE then
        ebind (double_to_int posReg) (\<lambda>k.
          Inr (hw\<lparr>mem := (mem hw)(block := (mem hw block)(k \<mapsto> v))\<rparr>))
      else Inl OutOfRange)"

definition CopyMem :: "AvidaGP \<Rightarrow> nat \<Rightarrow> nat \<Rightarrow> error + AvidaGP" where
  "CopyMem hw block_from block_to =
     (if block_from < CPU_SIZE \<and> block_to < CPU_SIZE then
        Inr (hw\<lparr>mem := (mem hw)(block_to := mem hw block_from)\<rparr>)
      else Inl OutOfRange)"

text \<open>
  \<open>ShiftMem\<close> moves every entry of a block from key \<open>k\<close> to \<open>k + shift_amount\<close>, the sum
  taken in \<open>size_t\<close> and stored as an \<open>int\<close> key: the entry found at a 32-bit key \<open>k'\<close>
  afterwards is the one that was at \<open>k' - shift_amount\<close>, modulo \<open>2^32\<close>.
\<close>

definition ShiftMem :: "AvidaGP \<Rightarrow> nat \<Rightarrow> nat \<Rightarrow> error + AvidaGP" where
  "ShiftMem hw block shift_amount =
     (if block < CPU_SIZE then
        Inr (hw\<lparr>mem := (mem hw)(block :=
               (\<lambda>k'. if size_t_to_int (int_to_size_t k') = k'
                     then mem hw block (size_t_to_int (int_to_size_t (k' - int shift_amount)))
                     else None))\<rparr>)
      else Inl OutOfRange)"

definition SetBoard :: "AvidaGP \<Rightarrow> error + AvidaGP" where
  "SetBoard hw =
     (if length (board hw) < BOARD_SIZE then Inl OutOfRange
      else Inr (hw\<lparr>
        inputs := (\<lambda>k. if 0 \<le> k \<and> k < int BOARD_SIZE \<and> inputs hw k = None then Some 0
                      else inputs hw k),
        board := map (\<lambda>i. case inputs hw (int i) of None \<Rightarrow> 0 | Some v \<Rightarrow> v) [0..<BOARD_SIZE]
                 @ drop BOARD_SIZE (board hw)\<rparr>))"

definition GetSquareCurr :: "AvidaGP \<Rightarrow> nat \<Rightarrow> error + real" where
  "GetSquareCurr hw pos = vec_at (board hw) (pos mod BOARD_SIZE)"

text \<open>
  The body shared by the loops of the eight \<open>GetValid...\<close> functions: look at \<open>square\<close>;
  an empty square ends the search with 0, a square of the player ends it with 1 or 0
  as the square \<open>behind\<close> it holds the opponent or not, any other square lets the loop go on.
\<close>

definition flank_step :: "real list \<Rightarrow> nat \<Rightarrow> nat \<Rightarrow> error + real option" where
  "flank_step b square behind =
     ebind (vec_at b square) (\<lambda>v.
       if v = EMPTY then Inr (Some 0)
       else if v = PLAYER then
         ebind (vec_at b behind) (\<lambda>w. Inr (Some (if w = OPPONENT then 1 else 0)))
       else Inr None)"

function GetValidAbove_loop :: "real list \<Rightarrow> int \<Rightarrow> error + real" where
  "GetValidAbove_loop b square =
     (if square \<ge> 0 then
        ebind (flank_step b (nat square) (nat (square + 8))) (\<lambda>r.
          case r of Some x \<Rightarrow> Inr x | None \<Rightarrow> GetValidAbove_loop b (square - 8))
      else Inr 0)"
  by pat_completeness auto
termination
  by (relation "measure (\<lambda>(b, square). nat (square + 8))") auto

function GetValidBelow_loop :: "real list \<Rightarrow> nat \<Rightarrow> error + real" where
  "GetValidBelow_loop b square =
     (if square < 64 then
        ebind (flank_step b square (square - 8)) (\<lambda>r.
          case r of Some x \<Rightarrow> Inr x | None \<Rightarrow> GetValidBelow_loop b (square + 8))
      else Inr 0)"
  by pat_completeness auto
termination
  by (relation "measure (\<lambda>(b, square). 64 - square)") auto

function GetValidLeft_loop :: "real list \<Rightarrow> nat \<Rightarrow> error + real" where
  "GetValidLeft_loop b square =
     (if square mod 8 \<noteq> 0 then
        ebind (flank_step b (square - 1) (square - 1 + 1)) (\<lambda>r.
          case r of Some x \<Rightarrow> Inr x | None \<Rightarrow> GetValidLeft_loop b (square - 1))
      else Inr 0)"
  by pat_completeness auto
termination
  by (relation "measure (\<lambda>(b, square). square)") (auto intro: Suc_lessI)

function GetValidRight_loop :: "real list \<Rightarrow> nat \<Rightarrow> error + real" where
  "GetValidRight_loop b square =
     (if square mod 8 \<noteq> 7 then
        ebind (flank_step b (square + 1) (square + 1 - 1)) (\<lambda>r.
          case r of Some x \<Rightarrow> Inr x | None \<Rightarrow> GetValidRight_loop b (square + 1))
      else Inr 0)"
  by pat_completeness auto
termination
  by (relation "measure (\<lambda>(b, square). 7 - square mod 8)") (auto, presburger)

function GetValidUL_loop :: "real list \<Rightarrow> nat \<Rightarrow> error + real" where
  "GetValidUL_loop b square =
     (if square mod 8 \<noteq> 0 \<and> square > 7 then
        ebind (flank_step b (square - 1 - 8) (square - 1 - 8 + 1 + 8)) (\<lambda>r.
          case r of Some x \<Rightarrow> Inr x | None \<Rightarrow> GetValidUL_loop b (square - 1 - 8))
      else Inr 0)"
  by pat_completeness auto
termination
  by (relation "measure (\<lambda>(b, square). square)") auto

function GetValidUR_loop :: "real list \<Rightarrow> nat \<Rightarrow> error + real" where
  "GetValidUR_loop b square =
     (if square mod 8 \<noteq> 7 \<and> square > 7 then
        ebind (flank_step b (square + 1 - 8) (square + 1 - 8 - 1 + 8)) (\<lambda>r.
          case r of Some x \<Rightarrow> Inr x | None \<Rightarrow> GetValidUR_loop b (square + 1 - 8))
      else Inr 0)"
  by pat_completeness auto
termination
  by (relation "measure (\<lambda>(b, square). square)") auto

function GetValidLL_loop :: "real list \<Rightarrow> nat \<Rightarrow> error + real" where
  "GetValidLL_loop b square =
     (if square mod 8 \<noteq> 0 \<and> square < 56 then
        ebind (flank_step b (square - 1 + 8) (square - 1 + 8 + 1 - 8)) (\<lambda>r.
          case r of Some x \<Rightarrow> Inr x | None \<Rightarrow> GetValidLL_loop b (square - 1 + 8))
      else Inr 0)"
  by pat_completeness auto
termination
  by (relation "measure (\<lambda>(b, square). 64 - square)") auto

function GetValidLR_loop :: "real list \<Rightarrow> nat \<Rightarrow> error + real" where
  "GetValidLR_loop b square =
     (if square mod 8 \<noteq> 7 \<and> square < 56 then
        ebind (flank_step b (square + 1 + 8) (square + 1 + 8 - 1 - 8)) (\<lambda>r.
          case r of Some x \<Rightarrow> Inr x | None \<Rightarrow> GetValidLR_loop b (square + 1 + 8))
      else Inr 0)"
  by pat_completeness auto
termination
  by (relation "measure (\<lambda>(b, square). 64 - square)") auto

definition GetValidAbove :: "AvidaGP \<Rightarrow> nat \<Rightarrow> error + real" where
  "GetValidAbove hw pos =
     (if pos > 63 then Inr 0
      else ebind (vec_at (board hw) pos) (\<lambda>v.
        if v \<noteq> EMPTY then Inr 0 else GetValidAbove_loop (board hw) (int pos - 8)))"

definition GetValidBelow :: "AvidaGP \<Rightarrow> nat \<Rightarrow> error + real" where
  "GetValidBelow hw pos =
     (if pos > 63 then Inr 0
      else ebind (vec_at (board hw) pos) (\<lambda>v.
        if v \<noteq> EMPTY then Inr 0 else GetValidBelow_loop (board hw) (pos + 8)))"

definition GetValidLeft :: "AvidaGP \<Rightarrow> nat \<Rightarrow> error + real" where
  "GetValidLeft hw pos =
     (if pos > 63 then Inr 0
      else ebind (vec_at (board hw) pos) (\<lambda>v.
        if v \<noteq> EMPTY then Inr 0 else GetValidLeft_loop (board hw) pos))"

definition GetValidRight :: "AvidaGP \<Rightarrow> nat \<Rightarrow> error + real" where
  "GetValidRight hw pos =
     (if pos > 63 then Inr 0
      else ebind (vec_at (board hw) pos) (\<lambda>v.
        if v \<noteq> EMPTY then Inr 0 else GetValidRight_loop (board hw) pos))"

definition GetValidUL :: "AvidaGP \<Rightarrow> nat \<Rightarrow> error + real" where
  "GetValidUL hw pos =
     (if pos > 63 then Inr 0
      else ebind (vec_at (board hw) pos) (\<lambda>v.
        if v \<noteq> EMPTY then Inr 0 else GetValidUL_loop (board hw) pos))"

definition GetValidUR :: "AvidaGP \<Rightarrow> nat \<Rightarrow> error + real" where
  "GetValidUR hw pos =
     (if pos > 63 then Inr 0
      else ebind (vec_at (board hw) pos) (\<lambda>v.
        if v \<noteq> EMPTY then Inr 0 else GetValidUR_loop (board hw) pos))"

definition GetValidLL :: "AvidaGP \<Rightarrow> nat \<Rightarrow> error + real" where
  "GetValidLL hw pos =
     (if pos > 63 then Inr 0
      else ebind (vec_at (board hw) pos) (\<lambda>v.
        if v \<noteq> EMPTY then Inr 0 else GetValidLL_loop (board hw) pos))"

definition GetValidLR :: "AvidaGP \<Rightarrow> nat \<Rightarrow> error + real" where
  "GetValidLR hw pos =
     (if pos > 63 then Inr 0
      else ebind (vec_at (board hw) pos) (\<lambda>v.
        if v \<noteq> EMPTY then Inr 0 else GetValidLR_loop (board hw) pos))"

definition Inst_SetBoard :: "AvidaGP \<Rightarrow> arg_set_t \<Rightarrow> error + AvidaGP" where
  "Inst_SetBoard hw args = SetBoard hw"

definition Inst_GetSquareCurr :: "AvidaGP \<Rightarrow> arg_set_t \<Rightarrow> error + AvidaGP" where
  "Inst_GetSquareCurr hw args =
     ebind (reg_read hw (a0 args)) (\<lambda>x. ebind (double_to_int x) (\<lambda>i.
       ebind (GetSquareCurr hw (int_to_size_t i)) (\<lambda>out. reg_write hw (a1 args) out)))"

definition Inst_EndTurn :: "AvidaGP \<Rightarrow> arg_set_t \<Rightarrow> error + AvidaGP" where
  "Inst_EndTurn hw args = Inr (EndTurn hw)"

definition Inst_GetValidAbove :: "AvidaGP \<Rightarrow> arg_set_t \<Rightarrow> error + AvidaGP" where
  "Inst_GetValidAbove hw args =
     ebind (reg_read hw (a0 args)) (\<lambda>x. ebind (double_to_int x) (\<lambda>i.
       ebind (GetValidAbove hw (int_to_size_t i)) (\<lambda>out. reg_write hw (a1 args) out)))"

definition Inst_GetValidBelow :: "AvidaGP \<Rightarrow> arg_set_t \<Rightarrow> error + AvidaGP" where
  "Inst_GetValidBelow hw args =
     ebind (reg_read hw (a0 args)) (\<lambda>x. ebind (double_to_int x) (\<lambda>i.
       ebind (GetValidBelow hw (int_to_size_t i)) (\<lambda>out. reg_write hw (a1 args) out)))"

definition Inst_GetValidLeft :: "AvidaGP \<Rightarrow> arg_set_t \<Rightarrow> error + AvidaGP" where
  "Inst_GetValidLeft hw args =
     ebind (reg_read hw (a0 args)) (\<lambda>x. ebind (double_to_int x) (\<lambda>i.
       ebind (GetValidLeft hw (int_to_size_t i)) (\<lambda>out. reg_write hw (a1 args) out)))"

definition Inst_GetValidRight :: "AvidaGP \<Rightarrow> arg_set_t \<Rightarrow> error + AvidaGP" where
  "Inst_GetValidRight hw args =
     ebind (reg_read hw (a0 args)) (\<lambda>x. ebind (double_to_int x) (\<lambda>i.
       ebind (GetValidRight hw (int_to_size_t i)) (\<lambda>out. reg_write hw (a1 args) out)))"

definition Inst_GetValidUL :: "AvidaGP \<Rightarrow> arg_set_t \<Rightarrow> error + AvidaGP" where
  "Inst_GetValidUL hw args =
     ebind (reg_read hw (a0 args)) (\<lambda>x. ebind (double_to_int x) (\<lambda>i.
       ebind (GetValidUL hw (int_to_size_t i)) (\<lambda>out. reg_write hw (a1 args) out)))"

definition Inst_GetValidUR :: "AvidaGP \<Rightarrow> arg_set_t \<Rightarrow> error + AvidaGP" where
  "Inst_GetValidUR hw args =
     ebind (reg_read hw (a0 args)) (\<lambda>x. ebind (double_to_int x) (\<lambda>i.
       ebind (GetValidUR hw (int_to_size_t i)) (\<lambda>out. reg_write hw (a1 args) out)))"

definition Inst_GetValidLL :: "AvidaGP \<Rightarrow> arg_set_t \<Rightarrow> error + AvidaGP" where
  "Inst_GetValidLL hw args =
     ebind (reg_read hw (a0 args)) (\<lambda>x. ebind (double_to_int x) (\<lambda>i.
       ebind (GetValidLL hw (int_to_size_t i)) (\<lambda>out. reg_write hw (a1 args) out)))"

definition Inst_GetValidLR :: "AvidaGP \<Rightarrow> arg_set_t \<Rightarrow> error + AvidaGP" where
  "Inst_GetValidLR hw args =
     ebind (reg_read hw (a0 args)) (\<lambda>x. ebind (double_to_int x) (\<lambda>i.
       ebind (GetValidLR hw (int_to_size_t i)) (\<lambda>out. reg_write hw (a1 args) out)))"

definition Inst_GetMem :: "AvidaGP \<Rightarrow> arg_set_t \<Rightarrow> error + AvidaGP" where
  "Inst_GetMem hw args =
     ebind (reg_read hw (a1 args)) (\<lambda>x. ebind (double_to_int x) (\<lambda>i.
       ebind (GetMem hw (a0 args) i) (\<lambda>out. reg_write hw (a2 args) out)))"

definition Inst_SetMem :: "AvidaGP \<Rightarrow> arg_set_t \<Rightarrow> error + AvidaGP" where
  "Inst_SetMem hw args =
     ebind (reg_read hw (a1 args)) (\<lambda>x. ebind (reg_read hw (a2 args)) (\<lambda>v.
       SetMem hw (a0 args) x v))"

definition Inst_CopyMem :: "AvidaGP \<Rightarrow> arg_set_t \<Rightarrow> error + AvidaGP" where
  "Inst_CopyMem hw args = CopyMem hw (a0 args) (a1 args)"

definition Inst_ShiftMem :: "AvidaGP \<Rightarrow> arg_set_t \<Rightarrow> error + AvidaGP" where
  "Inst_ShiftMem hw args =
     ebind (reg_read hw (a1 args)) (\<lambda>x. ebind (double_to_size_t x) (\<lambda>n.
       ShiftMem hw (a0 args) n))"

lemma ResetIP_exit_length:
  "ResetIP_exit hw = Inr hw' \<Longrightarrow> length (scope_stack hw') \<le> length (scope_stack hw)"
proof (induction hw rule: ResetIP_exit.induct)
  case (1 hw)
  show ?case
  proof (cases "length (scope_stack hw) > 1")
    case True
    then obtain hw1 where e: "ExitScope hw = Inr hw1" and r: "ResetIP_exit hw1 = Inr hw'"
      using "1.prems" by (subst (asm) ResetIP_exit.simps) (auto split: sum.splits)
    from "1.IH"[OF True e r] ExitScope_length[OF e] show ?thesis by simp
  next
    case False
    then show ?thesis using "1.prems" by (subst (asm) ResetIP_exit.simps) auto
  qed
qed

lemma ResetIP_restore_scope_stack:
  "ResetIP_restore hw = Inr hw' \<Longrightarrow> scope_stack hw' = scope_stack hw"
proof (induction hw rule: ResetIP_restore.induct)
  case (1 hw)
  then show ?case
    by (subst (asm) (2) ResetIP_restore.simps) (auto split: if_splits)
qed

lemma ResetIP_length:
  "ResetIP hw = Inr hw' \<Longrightarrow> length (scope_stack hw') \<le> length (scope_stack hw)"
  by (auto simp: ResetIP_def split: sum.splits
      dest!: ResetIP_exit_length ResetIP_restore_scope_stack)

lemma ResetIP_call_stack: "ResetIP hw = Inr hw' \<Longrightarrow> call_stack hw' = []"
  by (auto simp: ResetIP_def split: sum.splits)

subsection \<open>Scope resolution and dispatch\<close>

text \<open>
  \<open>UpdateScope\<close> closes scopes and, at the end of a loop or of a function, dispatches the
  next instruction itself through \<open>ProcessInst\<close>, whose handlers call \<open>UpdateScope\<close>
  again: the functions are mutually recursive. Every nested dispatch runs on a shorter
  scope stack, or on an emptied call stack, than the call it comes from.
\<close>

function UpdateScope :: "AvidaGP \<Rightarrow> nat \<Rightarrow> ScopeType \<Rightarrow> error + bool \<times> AvidaGP"
  and ProcessInst :: "AvidaGP \<Rightarrow> Instruction \<Rightarrow> error + AvidaGP"
  and Inst_If :: "AvidaGP \<Rightarrow> arg_set_t \<Rightarrow> error + AvidaGP"
  and Inst_While :: "AvidaGP \<Rightarrow> arg_set_t \<Rightarrow> error + AvidaGP"
  and Inst_Countdown :: "AvidaGP \<Rightarrow> arg_set_t \<Rightarrow> error + AvidaGP"
  and Inst_Scope :: "AvidaGP \<Rightarrow> arg_set_t \<Rightarrow> error + AvidaGP"
  and Inst_Define :: "AvidaGP \<Rightarrow> arg_set_t \<Rightarrow> error + AvidaGP"
  and Inst_Call :: "AvidaGP \<Rightarrow> arg_set_t \<Rightarrow> error + AvidaGP"
where
  "UpdateScope hw new_scope0 ty =
     (if scope_stack hw = [] then Inl EmptyBack
      else
        let cur_scope = CurScope hw; new_scope = size_t_inc new_scope0 in
        if new_scope > cur_scope then
          Inr (True, hw\<lparr>scope_stack := scope_stack hw @
                 [\<lparr>ScopeInfo.scope = new_scope, type = ty, start_pos = inst_ptr hw\<rparr>]\<rparr>)
        else if CurScopeType hw = LOOP then
          ebind (ExitScope (hw\<lparr>inst_ptr := start_pos (last (scope_stack hw))\<rparr>)) (\<lambda>hw1.
            ebind (GetInst hw1 (inst_ptr hw1)) (\<lambda>inst.
              ebind (ProcessInst hw1 inst) (\<lambda>hw2. Inr (False, hw2))))
        else if CurScopeType hw = FUNCTION then
          (if call_stack hw = [] then Inl EmptyBack
           else
             ebind (if last (call_stack hw) \<ge> length (genome hw)
                    then ResetIP (hw\<lparr>inst_ptr := last (call_stack hw)\<rparr>)
                    else ExitScope (hw\<lparr>inst_ptr := last (call_stack hw),
                                       call_stack := butlast (call_stack hw)\<rparr>)) (\<lambda>hw1.
               ebind (GetInst hw1 (inst_ptr hw1)) (\<lambda>inst.
                 ebind (ProcessInst hw1 inst) (\<lambda>hw2. Inr (False, hw2)))))
        else ebind (ExitScope hw) (\<lambda>hw1. UpdateScope hw1 new_scope ty))"
| "ProcessInst hw inst =
     ebind (GetFunCall (inst_lib hw) (inst_id inst)) (\<lambda>f.
       case f of
         F_Inc \<Rightarrow> Inst_Inc hw (inst_args inst)
       | F_Dec \<Rightarrow> Inst_Dec hw (inst_args inst)
       | F_Not \<Rightarrow> Inst_Not hw (inst_args inst)
       | F_SetReg \<Rightarrow> Inst_SetReg hw (inst_args inst)
       | F_Add \<Rightarrow> Inst_Add hw (inst_args inst)
       | F_Sub \<Rightarrow> Inst_Sub hw (inst_args inst)
       | F_Mult \<Rightarrow> Inst_Mult hw (inst_args inst)
       | F_Div \<Rightarrow> Inst_Div hw (inst_args inst)
       | F_Mod \<Rightarrow> Inst_Mod hw (inst_args inst)
       | F_TestEqu \<Rightarrow> Inst_TestEqu hw (inst_args inst)
       | F_TestNEqu \<Rightarrow> Inst_TestNEqu hw (inst_args inst)
       | F_TestLess \<Rightarrow> Inst_TestLess hw (inst_args inst)
       | F_If \<Rightarrow> Inst_If hw (inst_args inst)
       | F_While \<Rightarrow> Inst_While hw (inst_args inst)
       | F_Countdown \<Rightarrow> Inst_Countdown hw (inst_args inst)
       | F_Break \<Rightarrow> Inst_Break hw (inst_args inst)
       | F_Scope \<Rightarrow> Inst_Scope hw (inst_args inst)
       | F_Define \<Rightarrow> Inst_Define hw (inst_args inst)
       | F_Call \<Rightarrow> Inst_Call hw (inst_args inst)
       | F_SetMem \<Rightarrow> Inst_SetMem hw (inst_args inst)
       | F_GetMem \<Rightarrow> Inst_GetMem hw (inst_args inst)
       | F_CopyMem \<Rightarrow> Inst_CopyMem hw (inst_args inst)
       | F_ShiftMem \<Rightarrow> Inst_ShiftMem hw (inst_args inst)
       | F_SetBoard \<Rightarrow> Inst_SetBoard hw (inst_args inst)
       | F_EndTurn \<Rightarrow> Inst_EndTurn hw (inst_args inst)
       | F_GetSquareCurr \<Rightarrow> Inst_GetSquareCurr hw (inst_args inst)
       | F_GetValidAbove \<Rightarrow> Inst_GetValidAbove hw (inst_args inst)
       | F_GetValidBelow \<Rightarrow> Inst_GetValidBelow hw (inst_args inst)
       | F_GetValidLeft \<Rightarrow> Inst_GetValidLeft hw (inst_args inst)
       | F_GetValidRight \<Rightarrow> Inst_GetValidRight hw (inst_args inst)
       | F_GetValidUL \<Rightarrow> Inst_GetValidUL hw (inst_args inst)
       | F_GetValidUR \<Rightarrow> Inst_GetValidUR hw (inst_args inst)
       | F_GetValidLL \<Rightarrow> Inst_GetValidLL hw (inst_args inst)
       | F_GetValidLR \<Rightarrow> Inst_GetValidLR hw (inst_args inst)
       | F_Input \<Rightarrow> Inst_Input hw (inst_args inst)
       | F_Output \<Rightarrow> Inst_Output hw (inst_args inst)
       | F_CopyVal \<Rightarrow> Inst_CopyVal hw (inst_args inst)
       | F_ScopeReg \<Rightarrow> Inst_ScopeReg hw (inst_args inst))"
| "Inst_If hw args =
     ebind (UpdateScope hw (a1 args) BASIC) (\<lambda>(entered, hw1).
       if entered = False then Inr hw1
       else ebind (reg_read hw1 (a0 args)) (\<lambda>x.
         if x = 0 then BypassScope hw1 (a1 args) else Inr hw1))"
| "Inst_While hw args =
     ebind (UpdateScope hw (a1 args) LOOP) (\<lambda>(entered, hw1).
       if entered = False then Inr hw1
       else ebind (reg_read hw1 (a0 args)) (\<lambda>x.
         if x = 0 then BypassScope hw1 (a1 args) else Inr hw1))"
| "Inst_Countdown hw args =
     ebind (UpdateScope hw (a1 args) LOOP) (\<lambda>(entered, hw1).
       if entered = False then Inr hw1
       else ebind (reg_read hw1 (a0 args)) (\<lambda>x.
         if x = 0 then BypassScope hw1 (a1 args)
         else reg_write hw1 (a0 args) (double_round (x - 1))))"
| "Inst_Scope hw args =
     ebind (UpdateScope hw (a0 args) BASIC) (\<lambda>(entered, hw1). Inr hw1)"
| "Inst_Define hw args =
     ebind (UpdateScope hw (a1 args) BASIC) (\<lambda>(entered, hw1).
       if entered = False then Inr hw1
       else if a0 args < CPU_SIZE then
         BypassScope (hw1\<lparr>fun_starts := (fun_starts hw1)(a0 args := size_t_to_int (inst_ptr hw1))\<rparr>)
           (a1 args)
       else Inl OutOfRange)"
| "Inst_Call hw args =
     (if a0 args < CPU_SIZE then
        (let def_pos = int_to_size_t (fun_starts hw (a0 args)) in
         if def_pos \<ge> length (genome hw) then Inr hw
         else ebind (GetScopeType (inst_lib hw) (inst_id (genome hw ! def_pos))) (\<lambda>st.
           if st \<noteq> FUNCTION then Inr hw
           else
             (let fun_scope = a1 (inst_args (genome hw ! def_pos)) in
              ebind (UpdateScope hw fun_scope FUNCTION) (\<lambda>(entered, hw1).
                if entered = False then Inr hw1
                else Inr (hw1\<lparr>call_stack := call_stack hw1 @ [inst_ptr hw1 + 1],
                             inst_ptr := def_pos + 1\<rparr>)))))
      else Inl OutOfRange)"
  by pat_completeness auto
termination
proof (relation "inv_image (less_than <*lex*> less_than <*lex*> less_than)
     (\<lambda>x. case x of
        Inl (Inl (Inl (hw, _, _))) \<Rightarrow> (length (scope_stack hw), length (call_stack hw), 0::nat)
      | Inl (Inl (Inr (hw, _))) \<Rightarrow> (length (scope_stack hw), length (call_stack hw), 2)
      | Inl (Inr y) \<Rightarrow>
          (let hw = fst (case y of Inl p \<Rightarrow> p | Inr p \<Rightarrow> p)
           in (length (scope_stack hw), length (call_stack hw), 1))
      | Inr z \<Rightarrow>
          (let hw = fst (case z of Inl (Inl p) \<Rightarrow> p | Inl (Inr p) \<Rightarrow> p
                                 | Inr (Inl p) \<Rightarrow> p | Inr (Inr p) \<Rightarrow> p)
           in (length (scope_stack hw), length (call_stack hw), 1)))", goal_cases)
  case 1
  show ?case by auto
next
  case (2 hw new_scope0 ty x xa hw1 inst)
  then show ?case by (auto dest: ExitScope_length)
next
  case (3 hw new_scope0 ty x xa hw1 inst)
  then show ?case
    by (auto split: if_splits dest: ExitScope_length ResetIP_length ResetIP_call_stack
        simp: less_eq_Suc_le[symmetric] le_less)
next
  case (4 hw new_scope0 ty x xa hw1)
  then show ?case by (auto dest: ExitScope_length)
qed auto


declare UpdateScope.simps [simp del] ProcessInst.simps [simp del]

subsection \<open>Reset, stepping and prediction\<close>

definition ResetHardware :: "AvidaGP \<Rightarrow> AvidaGP" where
  "ResetHardware hw =
     hw\<lparr>regs := (\<lambda>i. if i < CPU_SIZE then real i else regs hw i),
        inputs := Map.empty,
        outputs := Map.empty,
        mem := (\<lambda>i. if i < CPU_SIZE then Map.empty else mem hw i),
        fun_starts := (\<lambda>i. if i < CPU_SIZE then - 1 else fun_starts hw i),
        inst_ptr := 0,
        scope_stack := resize (scope_stack hw) 1 \<lparr>ScopeInfo.scope = 0, type = BASIC, start_pos = 0\<rparr>,
        reg_stack := [],
        call_stack := [],
        board := resize (board hw) BOARD_SIZE 0,
        errors := 0\<rparr>"

definition Reset :: "AvidaGP \<Rightarrow> AvidaGP" where
  "Reset hw = ResetHardware (SetTrait (hw\<lparr>genome := [], traits := []\<rparr>) 100 0)"

text \<open>The constructor: every member empty or zero, the root scope pushed, then \<open>Reset\<close>.\<close>

definition AvidaGP_new :: "inst_lib_t \<Rightarrow> AvidaGP" where
  "AvidaGP_new ilib =
     Reset \<lparr>inst_lib = ilib, genome = [], regs = (\<lambda>i. 0), inputs = Map.empty,
            outputs = Map.empty, mem = (\<lambda>i. Map.empty), fun_starts = (\<lambda>i. 0), inst_ptr = 0,
            scope_stack = [\<lparr>ScopeInfo.scope = 0, type = ROOT, start_pos = 0\<rparr>],
            reg_stack = [], call_stack = [], board = [], errors = 0, traits = []\<rparr>"

definition SetGenome :: "AvidaGP \<Rightarrow> genome_t \<Rightarrow> AvidaGP" where
  "SetGenome hw g = hw\<lparr>genome := g\<rparr>"

definition SetReg :: "AvidaGP \<Rightarrow> nat \<Rightarrow> real \<Rightarrow> error + AvidaGP" where
  "SetReg hw i v = reg_write hw i v"

definition SingleProcess :: "AvidaGP \<Rightarrow> error + AvidaGP" where
  "SingleProcess hw =
     ebind (if inst_ptr hw \<ge> length (genome hw) then ResetIP hw else Inr hw) (\<lambda>hw1.
       ebind (GetInst hw1 (inst_ptr hw1)) (\<lambda>inst.
         ebind (ProcessInst hw1 inst) (\<lambda>hw2. Inr (hw2\<lparr>inst_ptr := inst_ptr hw2 + 1\<rparr>))))"

primrec Process :: "AvidaGP \<Rightarrow> nat \<Rightarrow> error + AvidaGP" where
  "Process hw 0 = Inr hw"
| "Process hw (Suc n) =
     ebind (GetTrait hw 100) (\<lambda>t.
       if t = 1 then Inr hw else ebind (SingleProcess hw) (\<lambda>hw1. Process hw1 n))"

definition PredictNextInst :: "AvidaGP \<Rightarrow> error + nat" where
  "PredictNextInst hw =
     ebind (if inst_ptr hw \<ge> length (genome hw) then Inr 0
            else ebind (InstScope hw (genome hw ! inst_ptr hw)) (\<lambda>inst_scope.
                   if inst_scope \<noteq> 0 then Inr inst_scope else Inr (CPU_SIZE + 1))) (\<lambda>new_scope.
       if new_scope > CPU_SIZE then Inr (inst_ptr hw)
       else if scope_stack hw = [] then Inl EmptyBack
       else if new_scope > CurScope hw then Inr (inst_ptr hw)
       else if CurScopeType hw = LOOP then Inr (start_pos (last (scope_stack hw)))
       else if CurScopeType hw = FUNCTION then
         (if call_stack hw = [] then Inl EmptyBack
          else Inr (if last (call_stack hw) \<ge> length (genome hw) then 0 else last (call_stack hw)))
       else if inst_ptr hw \<ge> length (genome hw) then Inr 0
       else Inr (inst_ptr hw))"

subsection \<open>The default instruction catalog\<close>

text \<open>The scope argument of an instruction registered without one is \<open>(size_t) -1\<close>.\<close>

definition no_scope_arg :: nat where
  "no_scope_arg = 2 ^ 64 - 1"

definition DefaultInstLib :: inst_lib_t where
  "DefaultInstLib =
     foldl (\<lambda>lib (n, f, k, st, sa). AddInst lib n f k st sa) []
       [(''Inc'', F_Inc, 1, NONE, no_scope_arg),
        (''Dec'', F_Dec, 1, NONE, no_scope_arg),
        (''Not'', F_Not, 1, NONE, no_scope_arg),
        (''SetReg'', F_SetReg, 2, NONE, no_scope_arg),
        (''Add'', F_Add, 3, NONE, no_scope_arg),
        (''Sub'', F_Sub, 3, NONE, no_scope_arg),
        (''Mult'', F_Mult, 3, NONE, no_scope_arg),
        (''Div'', F_Div, 3, NONE, no_scope_arg),
        (''Mod'', F_Mod, 3, NONE, no_scope_arg),
        (''TestEqu'', F_TestEqu, 3, NONE, no_scope_arg),
        (''TestNEqu'', F_TestNEqu, 3, NONE, no_scope_arg),
        (''TestLess'', F_TestLess, 3, NONE, no_scope_arg),
        (''If'', F_If, 2, BASIC, 1),
        (''While'', F_While, 2, LOOP, 1),
        (''Countdown'', F_Countdown, 2, LOOP, 1),
        (''Break'', F_Break, 1, NONE, no_scope_arg),
        (''Scope'', F_Scope, 1, BASIC, 0),
        (''Define'', F_Define, 2, FUNCTION, 1),
        (''Call'', F_Call, 1, NONE, no_scope_arg),
        (''SetMem'', F_SetMem, 3, NONE, no_scope_arg),
        (''GetMem'', F_GetMem, 3, NONE, no_scope_arg),
        (''CopyMem'', F_CopyMem, 2, NONE, no_scope_arg),
        (''ShiftMem'', F_ShiftMem, 2, NONE, no_scope_arg),
        (''SetBoard'', F_SetBoard, 1, NONE, no_scope_arg),
        (''EndTurn'', F_EndTurn, 1, NONE, no_scope_arg),
        (''GetSquareCurr'', F_GetSquareCurr, 2, NONE, no_scope_arg),
        (''GetValidAbove'', F_GetValidAbove, 2, NONE, no_scope_arg),
        (''GetValidBelow'', F_GetValidBelow, 2, NONE, no_scope_arg),
        (''GetValidLeft'', F_GetValidLeft, 2, NONE, no_scope_arg),
        (''GetValidRight'', F_GetValidRight, 2, NONE, no_scope_arg),
        (''GetValidUL'', F_GetValidUL, 2, NONE, no_scope_arg),
        (''GetValidUR'', F_GetValidUR, 2, NONE, no_scope_arg),
        (''GetValidLL'', F_GetValidLL, 2, NONE, no_scope_arg),
        (''GetValidLR'', F_GetValidLR, 2, NONE, no_scope_arg),
        (''Input'', F_Input, 2, NONE, no_scope_arg),
        (''Output'', F_Output, 2, NONE, no_scope_arg),
        (''CopyVal'', F_CopyVal, 2, NONE, no_scope_arg),
        (''ScopeReg'', F_ScopeReg, 1, NONE, no_scope_arg)]"

section \<open>Vocabulary of the properties and example machines\<close>

text \<open>
  \<open>restore_backups bs r\<close> is the register file \<open>r\<close> after the backups \<open>bs\<close> (a part of
  the backup stack, oldest first) have been written back newest first: the oldest backup
  of a register is the one that stays.
\<close>

definition restore_backups :: "RegBackup list \<Rightarrow> (nat \<Rightarrow> real) \<Rightarrow> (nat \<Rightarrow> real)" where
  "restore_backups bs r = foldr (\<lambda>b r. r(reg_id b := val b)) bs r"

text \<open>A machine that has entered the scope of depth 1, for the examples.\<close>

definition in_scope_1 :: AvidaGP where
  "in_scope_1 = (AvidaGP_new DefaultInstLib)\<lparr>scope_stack :=
     [\<lparr>ScopeInfo.scope = 0, type = ROOT, start_pos = 0\<rparr>,
      \<lparr>ScopeInfo.scope = 1, type = BASIC, start_pos = 0\<rparr>]\<rparr>"

text \<open>A machine as constructed with the default catalog, holding the genome \<open>g\<close>.\<close>

definition loaded :: "genome_t \<Rightarrow> AvidaGP" where
  "loaded g = SetGenome (AvidaGP_new DefaultInstLib) g"

text \<open>
  An example: \<open>Scope 0; ScopeReg 3; SetReg 3 9\<close>. After three steps the pointer is past
  the end, inside scope 1, with a backup of register 3 pending.
\<close>

definition g5 :: genome_t where
  "g5 = [Instruction 16 (Args 0 0 0), Instruction 37 (Args 3 0 0), Instruction 3 (Args 3 9 0)]"

definition g5_end :: AvidaGP where
  "g5_end = (loaded g5)\<lparr>inst_ptr := 3,
     scope_stack := [\<lparr>ScopeInfo.scope = 0, type = ROOT, start_pos = 0\<rparr>,
                     \<lparr>ScopeInfo.scope = 1, type = BASIC, start_pos = 0\<rparr>],
     reg_stack := [\<lparr>RegBackup.scope = 1, reg_id = 3, val = 3\<rparr>],
     regs := (regs (loaded g5))(3 := 9)\<rparr>"

text \<open>
  The instruction at position \<open>j\<close> ends a bypass to depth \<open>sc\<close> when the scope it opens is
  not zero and at most \<open>sc\<close>. \<open>scan_target hw sc\<close> is where the spec lets the forward scan
  leave the pointer: one position before the first such instruction after the pointer,
  or on the last instruction of the genome when there is none (and where it is, when
  nothing lies after it).
\<close>

definition ends_bypass :: "AvidaGP \<Rightarrow> nat \<Rightarrow> nat \<Rightarrow> bool" where
  "ends_bypass hw sc j =
     (case InstScope hw (genome hw ! j) of Inr s \<Rightarrow> s \<noteq> 0 \<and> s \<le> sc | Inl e \<Rightarrow> False)"

definition scan_target :: "AvidaGP \<Rightarrow> nat \<Rightarrow> nat" where
  "scan_target hw sc =
     (case filter (ends_bypass hw sc) [inst_ptr hw + 1 ..< length (genome hw)] of
        j # js \<Rightarrow> j - 1
      | [] \<Rightarrow> if inst_ptr hw + 1 < length (genome hw) then length (genome hw) - 1
              else inst_ptr hw)"

text \<open>
  An example: \<open>Scope 0; Break 5; Break 0; Inc 1; Scope 0; Inc 2\<close>. After one step the
  machine is inside scope 1 with the pointer on \<open>Break 5\<close>.
\<close>

definition gB :: genome_t where
  "gB = [Instruction 16 (Args 0 0 0), Instruction 15 (Args 5 0 0), Instruction 15 (Args 0 0 0),
         Instruction 0 (Args 1 0 0), Instruction 16 (Args 0 0 0), Instruction 0 (Args 2 0 0)]"

definition gB_in :: AvidaGP where
  "gB_in = (loaded gB)\<lparr>inst_ptr := 1,
     scope_stack := [\<lparr>ScopeInfo.scope = 0, type = ROOT, start_pos = 0\<rparr>,
                     \<lparr>ScopeInfo.scope = 1, type = BASIC, start_pos = 0\<rparr>]\<rparr>"

text \<open>
  An example: \<open>Countdown 2 0; Inc 1; Scope 0; Inc 3\<close>, a countdown loop on register 2
  whose body increments register 1, closed by \<open>Scope 0\<close>. \<open>countdown_start v\<close> is the
  machine about to run it with \<open>v\<close> in the guard register and 0 in register 1;
  \<open>in_loop k c p\<close> is the machine inside the loop, with \<open>k\<close> in the guard register, \<open>c\<close>
  in register 1 and the pointer at \<open>p\<close>; \<open>after_loop c\<close> is the machine that has left the
  loop, the pointer on the closing instruction.
\<close>

definition gL :: genome_t where
  "gL = [Instruction 14 (Args 2 0 0), Instruction 0 (Args 1 0 0), Instruction 16 (Args 0 0 0),
         Instruction 0 (Args 3 0 0)]"

definition countdown_start :: "real \<Rightarrow> AvidaGP" where
  "countdown_start v = (loaded gL)\<lparr>regs := (regs (loaded gL))(1 := 0, 2 := v)\<rparr>"

definition in_loop :: "real \<Rightarrow> real \<Rightarrow> nat \<Rightarrow> AvidaGP" where
  "in_loop k c p = (loaded gL)\<lparr>inst_ptr := p,
     scope_stack := [\<lparr>ScopeInfo.scope = 0, type = ROOT, start_pos = 0\<rparr>,
                     \<lparr>ScopeInfo.scope = 1, type = LOOP, start_pos = 0\<rparr>],
     regs := (regs (loaded gL))(1 := c, 2 := k)\<rparr>"

definition after_loop :: "real \<Rightarrow> AvidaGP" where
  "after_loop c = (loaded gL)\<lparr>inst_ptr := 2, regs := (regs (loaded gL))(1 := c, 2 := 0)\<rparr>"

text \<open>
  An example: \<open>Define 0 0; Inc 1; While 2 0; Call 0; Inc 3\<close>. After two steps function 0
  is defined at position 0 with depth 1, and the machine is inside the loop of depth 1
  that \<open>While\<close> opened, with the pointer on \<open>Call 0\<close>.
\<close>

definition gW :: genome_t where
  "gW = [Instruction 17 (Args 0 0 0), Instruction 0 (Args 1 0 0), Instruction 13 (Args 2 0 0),
         Instruction 18 (Args 0 0 0), Instruction 0 (Args 3 0 0)]"

definition gW_in :: AvidaGP where
  "gW_in = (loaded gW)\<lparr>inst_ptr := 3,
     scope_stack := [\<lparr>ScopeInfo.scope = 0, type = ROOT, start_pos = 0\<rparr>,
                     \<lparr>ScopeInfo.scope = 1, type = LOOP, start_pos = 2\<rparr>],
     fun_starts := (fun_starts (loaded gW))(0 := 0)\<rparr>"

text \<open>
  A second example: \<open>Define 0 1; Inc 1; Scope 0; Call 0; Inc 2\<close>. After two steps
  function 0 is defined at position 0 with depth 2 and the machine is in a scope of
  depth 1, with the pointer on \<open>Call 0\<close>.
\<close>

definition gC :: genome_t where
  "gC = [Instruction 17 (Args 0 1 0), Instruction 0 (Args 1 0 0), Instruction 16 (Args 0 0 0),
         Instruction 18 (Args 0 0 0), Instruction 0 (Args 2 0 0)]"

definition gC_in :: AvidaGP where
  "gC_in = (loaded gC)\<lparr>inst_ptr := 3,
     scope_stack := [\<lparr>ScopeInfo.scope = 0, type = ROOT, start_pos = 0\<rparr>,
                     \<lparr>ScopeInfo.scope = 1, type = BASIC, start_pos = 2\<rparr>],
     fun_starts := (fun_starts (loaded gC))(0 := 0)\<rparr>"

text \<open>
  Sixteen nested scopes: \<open>Scope 0; Scope 1; ...; Scope 15\<close>, every argument a register
  index, followed by \<open>Scope 0\<close>.
\<close>

definition g17 :: genome_t where
  "g17 = [Instruction 16 (Args 0 0 0),
         Instruction 16 (Args 1 0 0),
         Instruction 16 (Args 2 0 0),
         Instruction 16 (Args 3 0 0),
         Instruction 16 (Args 4 0 0),
         Instruction 16 (Args 5 0 0),
         Instruction 16 (Args 6 0 0),
         Instruction 16 (Args 7 0 0),
         Instruction 16 (Args 8 0 0),
         Instruction 16 (Args 9 0 0),
         Instruction 16 (Args 10 0 0),
         Instruction 16 (Args 11 0 0),
         Instruction 16 (Args 12 0 0),
         Instruction 16 (Args 13 0 0),
         Instruction 16 (Args 14 0 0),
         Instruction 16 (Args 15 0 0),
         Instruction 16 (Args 0 0 0)]"

text \<open>
  The position of the instruction that \<open>SingleProcess\<close> dispatches first: the pointer, or
  0 when the pointer is at or past the end of the genome and the machine is reset.
\<close>

definition first_dispatched :: "AvidaGP \<Rightarrow> nat" where
  "first_dispatched hw = (if length (genome hw) \<le> inst_ptr hw then 0 else inst_ptr hw)"

text \<open>
  An example: \<open>Inc 5; While 1 0; Inc 2\<close>, a loop that nothing closes. After three steps
  the pointer is past the end of the genome and the machine is still inside the loop.
\<close>

definition g9 :: genome_t where
  "g9 = [Instruction 0 (Args 5 0 0), Instruction 13 (Args 1 0 0), Instruction 0 (Args 2 0 0)]"

definition g9_end :: AvidaGP where
  "g9_end = (loaded g9)\<lparr>inst_ptr := 3,
     scope_stack := [\<lparr>ScopeInfo.scope = 0, type = ROOT, start_pos = 0\<rparr>,
                     \<lparr>ScopeInfo.scope = 1, type = LOOP, start_pos = 1\<rparr>],
     regs := (regs (loaded g9))(5 := 6, 2 := 3)\<rparr>"

text \<open>The second example of \<open>Call\<close>, one step later: inside the function, on \<open>Scope 0\<close>.\<close>

definition gC_called :: AvidaGP where
  "gC_called = gC_in\<lparr>scope_stack := [\<lparr>ScopeInfo.scope = 0, type = ROOT, start_pos = 0\<rparr>,
                                      \<lparr>ScopeInfo.scope = 1, type = BASIC, start_pos = 2\<rparr>,
                                      \<lparr>ScopeInfo.scope = 2, type = FUNCTION, start_pos = 3\<rparr>],
                     call_stack := [4], inst_ptr := 2\<rparr>"

text \<open>
  \<open>reg_op r i f\<close>: on a machine with the default catalog the instruction \<open>i\<close> opens no
  scope and its whole effect is to replace the register file \<open>\<rho>\<close> by \<open>f \<rho>\<close>, which leaves
  register \<open>r\<close> as it is.
\<close>

definition reg_op :: "nat \<Rightarrow> Instruction \<Rightarrow> ((nat \<Rightarrow> real) \<Rightarrow> (nat \<Rightarrow> real)) \<Rightarrow> bool" where
  "reg_op r i f \<longleftrightarrow>
     (\<forall>hw. inst_lib hw = DefaultInstLib \<longrightarrow>
        ProcessInst hw i = Inr (hw\<lparr>regs := f (regs hw)\<rparr>) \<and> InstScope hw i = Inr 0)
     \<and> (\<forall>\<rho>. f \<rho> r = \<rho> r)"

text \<open>
  \<open>countdown_loop hw r d body fs\<close>: the genome of \<open>hw\<close> starts with \<open>Countdown r d\<close>, a
  loop of depth \<open>d + 1\<close> guarded by register \<open>r\<close>, followed by the instructions \<open>body\<close>,
  which are register operations with the effects \<open>fs\<close> and leave the guard alone, and
  by a \<open>Scope c\<close> of a depth not deeper than the loop's, which closes it. The machine has
  the default catalog, is in a scope shallower than the loop with room for one more
  frame, holds no backup for the loop's depth on top of the backup stack, and has not
  halted.
\<close>

definition countdown_loop ::
  "AvidaGP \<Rightarrow> nat \<Rightarrow> nat \<Rightarrow> Instruction list \<Rightarrow> ((nat \<Rightarrow> real) \<Rightarrow> (nat \<Rightarrow> real)) list \<Rightarrow> bool" where
  "countdown_loop hw r d body fs \<longleftrightarrow>
     inst_lib hw = DefaultInstLib
     \<and> (\<exists>x c y z rest. c \<le> d \<and>
           genome hw = Instruction 14 (Args r d x) # body @ Instruction 16 (Args c y z) # rest)
     \<and> r < CPU_SIZE \<and> d < 2 ^ 64 - 1
     \<and> list_all2 (reg_op r) body fs
     \<and> scope_stack hw \<noteq> [] \<and> CurScope hw < d + 1 \<and> length (scope_stack hw) < CPU_SIZE
     \<and> (reg_stack hw = [] \<or> RegBackup.scope (last (reg_stack hw)) \<noteq> d + 1)
     \<and> (\<exists>t. GetTrait hw 100 = Inr t \<and> t \<noteq> 1)"

text \<open>
  The frame of the loop, and the machine \<open>hw\<close> at three places: on the \<open>Countdown\<close> with
  the registers \<open>\<rho>\<close>, inside the loop at position \<open>p\<close>, and outside the loop again.
\<close>

definition loop_frame :: "nat \<Rightarrow> ScopeInfo" where
  "loop_frame d = \<lparr>ScopeInfo.scope = d + 1, type = LOOP, start_pos = 0\<rparr>"

definition at_head :: "AvidaGP \<Rightarrow> (nat \<Rightarrow> real) \<Rightarrow> AvidaGP" where
  "at_head hw \<rho> = hw\<lparr>inst_ptr := 0, regs := \<rho>\<rparr>"

definition inside :: "AvidaGP \<Rightarrow> nat \<Rightarrow> (nat \<Rightarrow> real) \<Rightarrow> nat \<Rightarrow> AvidaGP" where
  "inside hw d \<rho> p = hw\<lparr>inst_ptr := p, scope_stack := scope_stack hw @ [loop_frame d], regs := \<rho>\<rparr>"

definition left_at :: "AvidaGP \<Rightarrow> (nat \<Rightarrow> real) \<Rightarrow> nat \<Rightarrow> AvidaGP" where
  "left_at hw \<rho> p = hw\<lparr>inst_ptr := p, regs := \<rho>\<rparr>"

text \<open>
  One pass of the loop on the registers: the guard is decremented, as a double, then the
  body runs.
\<close>

definition loop_pass :: "nat \<Rightarrow> ((nat \<Rightarrow> real) \<Rightarrow> (nat \<Rightarrow> real)) list \<Rightarrow> (nat \<Rightarrow> real) \<Rightarrow> (nat \<Rightarrow> real)" where
  "loop_pass r fs \<rho> = fold (\<lambda>f \<rho>. f \<rho>) fs (\<rho>(r := double_round (\<rho> r - 1)))"

text \<open>
  \<open>stack_ok hw\<close>: the scope stack is not empty, its bottom frame is the root, of depth 0
  and kind Root, and the depths of the frames increase strictly from the bottom to the
  top. \<open>keeps_root hw hw'\<close>: the state \<open>hw'\<close> is such a state and has the bottom frame of
  \<open>hw\<close>.
\<close>

definition stack_ok :: "AvidaGP \<Rightarrow> bool" where
  "stack_ok hw \<longleftrightarrow>
     scope_stack hw \<noteq> []
     \<and> ScopeInfo.scope (hd (scope_stack hw)) = 0 \<and> type (hd (scope_stack hw)) = ROOT
     \<and> sorted_wrt (<) (map ScopeInfo.scope (scope_stack hw))"

definition keeps_root :: "AvidaGP \<Rightarrow> AvidaGP \<Rightarrow> bool" where
  "keeps_root hw hw' \<longleftrightarrow> stack_ok hw' \<and> hd (scope_stack hw') = hd (scope_stack hw)"

text \<open>
  \<open>small_scopes hw\<close>: the first two arguments of every instruction of the genome are
  register indices, as in a genome drawn by the random generators of the class; the scope
  argument of every scope-opening instruction is one of the two. \<open>depth_ok hw\<close>: the
  current depth is at most \<open>CPU_SIZE + 1\<close>, and a stack whose top frame has that depth
  holds at most \<open>CPU_SIZE\<close> frames. \<open>bounded hw\<close> collects the three conditions, and
  \<open>stays_bounded hw hw'\<close> says that \<open>hw'\<close> has the genome of \<open>hw\<close> and a depth that is
  in order.
\<close>

definition small_scopes :: "AvidaGP \<Rightarrow> bool" where
  "small_scopes hw \<longleftrightarrow>
     list_all (\<lambda>i. a0 (inst_args i) < CPU_SIZE \<and> a1 (inst_args i) < CPU_SIZE) (genome hw)"

definition depth_ok :: "AvidaGP \<Rightarrow> bool" where
  "depth_ok hw \<longleftrightarrow>
     CurScope hw \<le> CPU_SIZE + 1
     \<and> (CurScope hw = CPU_SIZE + 1 \<longrightarrow> length (scope_stack hw) \<le> CPU_SIZE)"

definition bounded :: "AvidaGP \<Rightarrow> bool" where
  "bounded hw \<longleftrightarrow> stack_ok hw \<and> depth_ok hw \<and> small_scopes hw"

definition stays_bounded :: "AvidaGP \<Rightarrow> AvidaGP \<Rightarrow> bool" where
  "stays_bounded hw hw' \<longleftrightarrow> depth_ok hw' \<and> genome hw' = genome hw"

text \<open>
  An example: \<open>Countdown 2 0; If 1 1; Inc 4; Scope 0; Inc 3\<close>, a countdown loop of depth
  1 on register 2 whose body is a conditional of depth 2. \<open>gN_close\<close> is the machine
  after three steps, inside the conditional with the pointer on \<open>Scope 0\<close>; \<open>gN_opened\<close>
  is the machine one step later, in a new scope of depth 2 inside the loop, and \<open>gN_end\<close>
  the machine after \<open>Inc 3\<close>.
\<close>

definition gN :: genome_t where
  "gN = [Instruction 14 (Args 2 0 0), Instruction 12 (Args 1 1 0), Instruction 0 (Args 4 0 0),
         Instruction 16 (Args 0 0 0), Instruction 0 (Args 3 0 0)]"

definition gN_close :: AvidaGP where
  "gN_close = (loaded gN)\<lparr>inst_ptr := 3,
     scope_stack := [\<lparr>ScopeInfo.scope = 0, type = ROOT, start_pos = 0\<rparr>,
                     \<lparr>ScopeInfo.scope = 1, type = LOOP, start_pos = 0\<rparr>,
                     \<lparr>ScopeInfo.scope = 2, type = BASIC, start_pos = 1\<rparr>],
     regs := (regs (loaded gN))(2 := 1, 4 := 5)\<rparr>"

definition gN_opened :: AvidaGP where
  "gN_opened = (loaded gN)\<lparr>inst_ptr := 4,
     scope_stack := [\<lparr>ScopeInfo.scope = 0, type = ROOT, start_pos = 0\<rparr>,
                     \<lparr>ScopeInfo.scope = 1, type = LOOP, start_pos = 0\<rparr>,
                     \<lparr>ScopeInfo.scope = 2, type = BASIC, start_pos = 3\<rparr>],
     regs := (regs (loaded gN))(2 := 1, 4 := 5)\<rparr>"

definition gN_end :: AvidaGP where
  "gN_end = gN_opened\<lparr>inst_ptr := 5, regs := (regs (loaded gN))(2 := 1, 4 := 5, 3 := 4)\<rparr>"

text \<open>
  An example: \<open>While 5 1; If 1 2; Inc 4; Scope 0; Inc 3\<close>, a loop of depth 2 whose body
  is a conditional of depth 3. \<open>gR_in\<close> is the machine after three steps, inside the
  conditional with the pointer on \<open>Scope 0\<close>, and \<open>gR_back\<close> the machine one step later,
  which has gone through the \<open>While\<close> at position 0 again.
\<close>

definition gR :: genome_t where
  "gR = [Instruction 13 (Args 5 1 0), Instruction 12 (Args 1 2 0), Instruction 0 (Args 4 0 0),
         Instruction 16 (Args 0 0 0), Instruction 0 (Args 3 0 0)]"

definition gR_in :: AvidaGP where
  "gR_in = (loaded gR)\<lparr>inst_ptr := 3,
     scope_stack := [\<lparr>ScopeInfo.scope = 0, type = ROOT, start_pos = 0\<rparr>,
                     \<lparr>ScopeInfo.scope = 2, type = LOOP, start_pos = 0\<rparr>,
                     \<lparr>ScopeInfo.scope = 3, type = BASIC, start_pos = 1\<rparr>],
     regs := (regs (loaded gR))(4 := 5)\<rparr>"

definition gR_back :: AvidaGP where
  "gR_back = (loaded gR)\<lparr>inst_ptr := 1,
     scope_stack := [\<lparr>ScopeInfo.scope = 0, type = ROOT, start_pos = 0\<rparr>,
                     \<lparr>ScopeInfo.scope = 2, type = LOOP, start_pos = 0\<rparr>],
     regs := (regs (loaded gR))(4 := 5)\<rparr>"

section \<open>Properties of the engine\<close>

subsection \<open>Rounding to a double\<close>

text \<open>
  Whole numbers up to \<open>2^53\<close> in absolute value are doubles, so a guard in that range is
  decremented exactly. The odd number \<open>2^54 - 1\<close> is not a double and is rounded up: a
  guard of \<open>2^54\<close> is not changed by its decrement.
\<close>

lemma round_even_of_int [simp]: "round_even (of_int m) = m"
  by (simp add: round_even_def)

lemma double_round_of_int:
  assumes "\<bar>k\<bar> \<le> 2 ^ 53"
  shows "double_round (of_int k) = of_int k"
proof (cases "k = 0")
  case True
  then show ?thesis by (simp add: double_round_def)
next
  case False
  let ?a = "\<bar>k\<bar>"
  have a: "0 < ?a" using False by simp
  have fl: "\<lfloor>\<bar>real_of_int k\<bar>\<rfloor> = ?a"
    by (metis floor_of_int of_int_abs)
  have "1 \<le> ?a" using a by linarith
  then have "(1::real) \<le> of_int ?a" by (simp only: of_int_1_le_iff)
  then have one: "1 \<le> \<bar>real_of_int k\<bar>" by simp
  have e: "double_exp (of_int k) = bitlen ?a - 1"
    using one fl by (simp add: double_exp_def)
  have b: "2 ^ nat (bitlen ?a - 1) \<le> ?a" using bitlen_bounds[OF a] by simp
  have le: "bitlen ?a \<le> 54"
  proof -
    have "?a < 2 ^ nat 54" using assms by simp
    then show ?thesis by (simp add: bitlen_le_iff_power)
  qed
  show ?thesis
  proof (cases "52 \<le> bitlen ?a - 1")
    case True
    show ?thesis
    proof (cases "bitlen ?a = 54")
      case True
      then have "2 ^ 53 \<le> ?a" using b by simp
      with assms have k: "?a = 2 ^ 53" by simp
      have u: "double_ulp (of_int k) = 2"
        using True by (simp add: double_ulp_def e)
      from k have "k = 2 * 2 ^ 52 \<or> k = - (2 * 2 ^ 52)" by (auto simp: abs_if split: if_splits)
      then have "real_of_int k / 2 = of_int (k div 2)" by auto
      then have "round_even (real_of_int k / 2) = k div 2" by simp
      moreover have "2 * (k div 2) = k" using \<open>k = 2 * 2 ^ 52 \<or> k = - (2 * 2 ^ 52)\<close> by auto
      ultimately show ?thesis
        using False by (simp add: double_round_def u)
    next
      case F: False
      with le True have "bitlen ?a = 53" by simp
      then have u: "double_ulp (of_int k) = 1" by (simp add: double_ulp_def e)
      show ?thesis using False by (simp add: double_round_def u)
    qed
  next
    case False
    let ?n = "nat (52 - (bitlen ?a - 1))"
    have u: "double_ulp (of_int k) = 1 / 2 ^ ?n"
      using False by (simp add: double_ulp_def e Let_def)
    have "real_of_int k / (1 / 2 ^ ?n) = of_int (k * 2 ^ ?n)" by simp
    then have "round_even (real_of_int k / (1 / 2 ^ ?n)) = k * 2 ^ ?n"
      by (simp only: round_even_of_int)
    then show ?thesis
      using \<open>k \<noteq> 0\<close> by (simp add: double_round_def u)
  qed
qed

lemma double_round_0 [simp]: "double_round 0 = 0"
  by (simp add: double_round_def)

lemma double_round_1 [simp]: "double_round 1 = 1"
  using double_round_of_int[of 1] by simp

lemma double_round_numeral [simp]:
  "(numeral n :: int) \<le> 2 ^ 53 \<Longrightarrow> double_round (numeral n) = numeral n"
  using double_round_of_int[of "numeral n"] by simp

lemma double_round_neg_numeral [simp]:
  "(numeral n :: int) \<le> 2 ^ 53 \<Longrightarrow> double_round (- numeral n) = - numeral n"
  using double_round_of_int[of "- numeral n"] by simp

lemma double_round_real:
  "n \<le> 2 ^ 53 \<Longrightarrow> double_round (real n) = real n"
  using double_round_of_int[of "int n"] by (simp add: le_nat_iff flip: of_nat_le_iff)

lemma double_round_stuck: "double_round (2 ^ 54 - 1) = 2 ^ 54"
proof -
  have f: "\<lfloor>\<bar>2 ^ 54 - 1 :: real\<bar>\<rfloor> = 2 ^ 53 + (2 ^ 53 - 1)"
    by (simp add: floor_eq_iff)
  have "bitlen (2 ^ 53 + (2 ^ 53 - 1)) = int (53 + 1)"
    by (rule bitlen_twopow_add_eq) simp_all
  then have e: "double_exp (2 ^ 54 - 1) = 53"
    unfolding double_exp_def f by simp
  have u: "double_ulp (2 ^ 54 - 1) = 2"
    unfolding double_ulp_def e by (simp add: Let_def)
  have fl: "\<lfloor>(2 ^ 54 - 1) / 2 :: real\<rfloor> = 2 ^ 53 - 1"
    by (simp add: floor_eq_iff)
  have "round_even ((2 ^ 54 - 1) / 2) = 2 ^ 53"
    unfolding round_even_def fl by (simp add: Let_def)
  then show ?thesis
    unfolding double_round_def u by simp
qed

subsection \<open>The machine after construction\<close>

lemma regs_AvidaGP_new: "regs (AvidaGP_new ilib) i = (if i < CPU_SIZE then real i else 0)"
  by (simp add: AvidaGP_new_def Reset_def ResetHardware_def SetTrait_def)

lemma errors_AvidaGP_new: "errors (AvidaGP_new ilib) = 0"
  by (simp add: AvidaGP_new_def Reset_def ResetHardware_def SetTrait_def)

subsection \<open>Arithmetic faults\<close>

text \<open>
  Claim C7. When the divisor register \<open>args[1]\<close> holds zero, \<open>Div\<close> and \<open>Mod\<close> return the
  state they were given with the error counter incremented by one (in \<open>size_t\<close>) and
  nothing else changed, so the destination register \<open>args[2]\<close> keeps its value and
  execution goes on. When the divisor is not zero (and the other two arguments name
  registers), only the destination register changes: the error counter is unchanged.
\<close>

theorem Inst_Div_Mod_zero_divisor:
  assumes "a1 args < CPU_SIZE"
  shows "(regs hw (a1 args) = 0 \<longrightarrow>
            Inst_Div hw args = Inr (hw\<lparr>errors := (errors hw + 1) mod 2 ^ 64\<rparr>)
          \<and> Inst_Mod hw args = Inr (hw\<lparr>errors := (errors hw + 1) mod 2 ^ 64\<rparr>))
       \<and> (regs hw (a1 args) \<noteq> 0 \<and> a0 args < CPU_SIZE \<and> a2 args < CPU_SIZE \<longrightarrow>
            Inst_Div hw args
              = Inr (hw\<lparr>regs := (regs hw)(a2 args := regs hw (a0 args) / regs hw (a1 args))\<rparr>)
          \<and> Inst_Mod hw args
              = Inr (hw\<lparr>regs := (regs hw)(a2 args := regs hw (a0 args) / regs hw (a1 args))\<rparr>))"
  using assms
  by (simp add: Inst_Div_def Inst_Mod_def reg_read_def reg_write_def size_t_inc_def)

theorem Inst_Div_Mod_zero_divisor_witness:
  "a1 (Args 1 0 2) < CPU_SIZE
   \<and> regs (AvidaGP_new DefaultInstLib) (a1 (Args 1 0 2)) = 0
   \<and> Inst_Div (AvidaGP_new DefaultInstLib) (Args 1 0 2)
       = Inr ((AvidaGP_new DefaultInstLib)\<lparr>errors := 1\<rparr>)
   \<and> a1 (Args 6 3 2) < CPU_SIZE
   \<and> regs (AvidaGP_new DefaultInstLib) (a1 (Args 6 3 2)) \<noteq> 0
   \<and> a0 (Args 6 3 2) < CPU_SIZE \<and> a2 (Args 6 3 2) < CPU_SIZE
   \<and> Inst_Mod (AvidaGP_new DefaultInstLib) (Args 6 3 2)
       = Inr ((AvidaGP_new DefaultInstLib)\<lparr>regs := (regs (AvidaGP_new DefaultInstLib))(2 := 2)\<rparr>)"
proof -
  let ?H = "AvidaGP_new DefaultInstLib"
  have r: "a1 (Args 1 0 2) < CPU_SIZE" "a1 (Args 6 3 2) < CPU_SIZE"
    "a0 (Args 6 3 2) < CPU_SIZE" "a2 (Args 6 3 2) < CPU_SIZE"
    by (simp_all add: CPU_SIZE_def)
  have z: "regs ?H (a1 (Args 1 0 2)) = 0" "regs ?H (a1 (Args 6 3 2)) \<noteq> 0"
    by (simp_all add: regs_AvidaGP_new CPU_SIZE_def)
  have d: "Inst_Div ?H (Args 1 0 2) = Inr (?H\<lparr>errors := (errors ?H + 1) mod 2 ^ 64\<rparr>)"
    using Inst_Div_Mod_zero_divisor [OF r(1), of ?H] z(1) by blast
  have m: "Inst_Mod ?H (Args 6 3 2)
      = Inr (?H\<lparr>regs := (regs ?H)(a2 (Args 6 3 2) :=
               regs ?H (a0 (Args 6 3 2)) / regs ?H (a1 (Args 6 3 2)))\<rparr>)"
    using Inst_Div_Mod_zero_divisor [OF r(2), of ?H] z(2) r(3,4) by blast
  have e: "(errors ?H + 1) mod 2 ^ 64 = 1"
    by (simp add: errors_AvidaGP_new)
  have q: "regs ?H (a0 (Args 6 3 2)) / regs ?H (a1 (Args 6 3 2)) = 2"
    by (simp add: regs_AvidaGP_new CPU_SIZE_def)
  show ?thesis
    using r z d m unfolding e q by simp
qed

text \<open>
  Claim C10. \<open>Mod\<close> is the same function of the state and the arguments as \<open>Div\<close>: it
  stores the quotient of the registers \<open>args[0]\<close> and \<open>args[1]\<close>, not a remainder. On the
  machine as constructed, \<open>Mod\<close> of register 7 by register 2 leaves 7/2 in the
  destination.
\<close>

theorem Inst_Mod_is_Inst_Div:
  "(\<forall>hw args. Inst_Mod hw args = Inst_Div hw args)
   \<and> map_sum (\<lambda>e. e) (\<lambda>hw. regs hw 2) (Inst_Mod (AvidaGP_new DefaultInstLib) (Args 7 2 2)) = Inr (7 / 2)"
  by (simp add: Inst_Mod_def Inst_Div_def reg_read_def reg_write_def regs_AvidaGP_new
      CPU_SIZE_def)

subsection \<open>Register backups\<close>

lemma restore_backups_simps [simp]:
  "restore_backups [] r = r"
  "restore_backups (bs @ [b]) r = restore_backups bs (r(reg_id b := val b))"
  "restore_backups (b # bs) r = (restore_backups bs r)(reg_id b := val b)"
  by (simp_all add: restore_backups_def)

lemma restore_backups_append:
  "restore_backups (xs @ ys) r = restore_backups xs (restore_backups ys r)"
  by (simp add: restore_backups_def)

lemma restore_backups_find:
  "restore_backups bs r R = (case find (\<lambda>b. reg_id b = R) bs of None \<Rightarrow> r R | Some b \<Rightarrow> val b)"
  by (induction bs) auto

text \<open>The restore loop of ExitScope pops exactly the newest run of backups of the current scope.\<close>

lemma ExitScope_restore_run:
  assumes "reg_stack hw = below @ run"
    and "\<forall>b\<in>set run. RegBackup.scope b = CurScope hw \<and> reg_id b < CPU_SIZE"
    and "below = [] \<or> RegBackup.scope (last below) \<noteq> CurScope hw"
  shows "ExitScope_restore hw
           = Inr (hw\<lparr>regs := restore_backups run (regs hw), reg_stack := below\<rparr>)"
  using assms
proof (induction run arbitrary: hw rule: rev_induct)
  case Nil
  then show ?case by (subst ExitScope_restore.simps) auto
next
  case (snoc b run)
  let ?hw = "hw\<lparr>regs := (regs hw)(reg_id b := val b), reg_stack := below @ run\<rparr>"
  have "ExitScope_restore hw = ExitScope_restore ?hw"
    using snoc.prems by (subst ExitScope_restore.simps) (simp add: butlast_append)
  also have "\<dots> = Inr (?hw\<lparr>regs := restore_backups run (regs ?hw), reg_stack := below\<rparr>)"
    using snoc.prems by (intro snoc.IH) (auto simp: CurScope_def)
  finally show ?case by simp
qed

lemma ExitScope_run:
  assumes "1 < length (scope_stack hw)" "length (scope_stack hw) \<le> CPU_SIZE"
    and "reg_stack hw = below @ run"
    and "\<forall>b\<in>set run. RegBackup.scope b = CurScope hw \<and> reg_id b < CPU_SIZE"
    and "below = [] \<or> RegBackup.scope (last below) \<noteq> CurScope hw"
  shows "ExitScope hw
           = Inr (hw\<lparr>regs := restore_backups run (regs hw), reg_stack := below,
                     scope_stack := butlast (scope_stack hw)\<rparr>)"
  using assms(1,2) ExitScope_restore_run[OF assms(3,4,5)] by (simp add: ExitScope_def)

text \<open>
  Claim C2. In a state \<open>hw0\<close> whose current scope \<open>S\<close> has no pending backup of register
  \<open>R\<close>, let \<open>ScopeReg R\<close> push the backup \<open>{S, R, V}\<close> with \<open>V\<close> the value of \<open>R\<close>. Whatever
  the registers hold afterwards, and whatever further backups are pushed in \<open>S\<close>
  (of \<open>R\<close> too, with other values), exiting \<open>S\<close> succeeds and leaves \<open>V\<close> in \<open>R\<close>: the
  backups of the scope are written back newest first, so the first one pushed wins.
  Exactly the backups of \<open>S\<close> are popped, and the frame of \<open>S\<close> with them.
\<close>

theorem backup_round_trip:
  assumes "1 < length (scope_stack hw0)" "length (scope_stack hw0) \<le> CPU_SIZE"
    and "reg_stack hw0 = below @ run0"
    and "\<forall>b\<in>set run0. RegBackup.scope b = CurScope hw0 \<and> reg_id b < CPU_SIZE \<and> reg_id b \<noteq> R"
    and "below = [] \<or> RegBackup.scope (last below) \<noteq> CurScope hw0"
    and "Inst_ScopeReg hw0 (Args R x y) = Inr hw1"
    and "scope_stack hw2 = scope_stack hw1"
    and "reg_stack hw2 = reg_stack hw1 @ later"
    and "\<forall>b\<in>set later. RegBackup.scope b = CurScope hw0 \<and> reg_id b < CPU_SIZE"
  shows "\<exists>hw3. ExitScope hw2 = Inr hw3
              \<and> regs hw3 R = regs hw0 R
              \<and> reg_stack hw3 = below
              \<and> scope_stack hw3 = butlast (scope_stack hw0)"
proof -
  let ?b = "\<lparr>RegBackup.scope = CurScope hw0, reg_id = R, val = regs hw0 R\<rparr>"
  have R: "R < CPU_SIZE"
    using assms(6) by (auto simp: Inst_ScopeReg_def reg_read_def split: if_splits)
  have push: "hw1 = hw0\<lparr>reg_stack := reg_stack hw0 @ [?b]\<rparr>"
    using assms(6) by (auto simp: Inst_ScopeReg_def reg_read_def split: if_splits)
  have ss: "scope_stack hw2 = scope_stack hw0"
    using assms(7) push by simp
  have cs: "CurScope hw2 = CurScope hw0"
    using ss by (simp add: CurScope_def)
  have rs: "reg_stack hw2 = below @ (run0 @ [?b] @ later)"
    using assms(3,8) push by simp
  have run: "\<forall>b\<in>set (run0 @ [?b] @ later). RegBackup.scope b = CurScope hw2 \<and> reg_id b < CPU_SIZE"
    using R assms(4,9) cs by auto
  have ex: "ExitScope hw2
      = Inr (hw2\<lparr>regs := restore_backups (run0 @ [?b] @ later) (regs hw2), reg_stack := below,
                  scope_stack := butlast (scope_stack hw2)\<rparr>)"
    using assms(1,2,5) cs ss by (intro ExitScope_run[OF _ _ rs run]) auto
  have f: "find (\<lambda>b. reg_id b = R) (run0 @ [?b] @ later) = Some ?b"
    using assms(4) by (induction run0) auto
  have "restore_backups (run0 @ [?b] @ later) (regs hw2) R = regs hw0 R"
    by (simp only: restore_backups_find f) simp
  with ex ss show ?thesis by simp
qed

lemma in_scope_1_simps:
  "scope_stack in_scope_1 = [\<lparr>ScopeInfo.scope = 0, type = ROOT, start_pos = 0\<rparr>,
      \<lparr>ScopeInfo.scope = 1, type = BASIC, start_pos = 0\<rparr>]"
  "reg_stack in_scope_1 = []"
  "regs in_scope_1 i = (if i < CPU_SIZE then real i else 0)"
  "CurScope in_scope_1 = 1"
  by (simp_all add: in_scope_1_def AvidaGP_new_def Reset_def ResetHardware_def SetTrait_def
      CurScope_def)

theorem backup_round_trip_witness:
  "\<exists>hw3. ExitScope (in_scope_1\<lparr>regs := (\<lambda>i. 42), reg_stack :=
        [\<lparr>RegBackup.scope = 1, reg_id = 3, val = 3\<rparr>,
         \<lparr>RegBackup.scope = 1, reg_id = 3, val = 99\<rparr>]\<rparr>) = Inr hw3
     \<and> regs hw3 3 = 3 \<and> reg_stack hw3 = []
     \<and> scope_stack hw3 = [\<lparr>ScopeInfo.scope = 0, type = ROOT, start_pos = 0\<rparr>]"
proof -
  let ?hw1 = "in_scope_1\<lparr>reg_stack := [\<lparr>RegBackup.scope = 1, reg_id = 3, val = 3\<rparr>]\<rparr>"
  let ?hw2 = "in_scope_1\<lparr>regs := (\<lambda>i. 42), reg_stack :=
        [\<lparr>RegBackup.scope = 1, reg_id = 3, val = 3\<rparr>,
         \<lparr>RegBackup.scope = 1, reg_id = 3, val = 99\<rparr>]\<rparr>"
  have 1: "1 < length (scope_stack in_scope_1)" "length (scope_stack in_scope_1) \<le> CPU_SIZE"
    by (simp_all add: in_scope_1_simps CPU_SIZE_def)
  have 2: "reg_stack in_scope_1 = [] @ []"
    by (simp add: in_scope_1_simps)
  have 3: "\<forall>b\<in>set []. RegBackup.scope b = CurScope in_scope_1 \<and> reg_id b < CPU_SIZE \<and> reg_id b \<noteq> 3"
    by simp
  have 4: "[] = [] \<or> RegBackup.scope (last []) \<noteq> CurScope in_scope_1"
    by simp
  have 5: "Inst_ScopeReg in_scope_1 (Args 3 0 0) = Inr ?hw1"
    by (simp add: Inst_ScopeReg_def reg_read_def in_scope_1_simps CPU_SIZE_def)
  have 6: "scope_stack ?hw2 = scope_stack ?hw1"
    by simp
  have 7: "reg_stack ?hw2 = reg_stack ?hw1 @ [\<lparr>RegBackup.scope = 1, reg_id = 3, val = 99\<rparr>]"
    by simp
  have 8: "\<forall>b\<in>set [\<lparr>RegBackup.scope = 1, reg_id = 3, val = 99\<rparr>].
             RegBackup.scope b = CurScope in_scope_1 \<and> reg_id b < CPU_SIZE"
    by (simp add: in_scope_1_simps CPU_SIZE_def)
  from backup_round_trip [OF 1 2 3 4 5 6 7 8]
  obtain hw3 where "ExitScope ?hw2 = Inr hw3" "regs hw3 3 = regs in_scope_1 3"
    "reg_stack hw3 = []" "scope_stack hw3 = butlast (scope_stack in_scope_1)"
    by blast
  then show ?thesis
    by (intro exI[of _ hw3]) (simp add: in_scope_1_simps CPU_SIZE_def)
qed

subsection \<open>The reset at the end of the genome\<close>

lemma ExitScope_restore_frame:
  assumes "\<forall>b\<in>set (reg_stack hw). reg_id b < CPU_SIZE"
  shows "\<exists>r s. ExitScope_restore hw = Inr (hw\<lparr>regs := r, reg_stack := s\<rparr>)
           \<and> restore_backups s r = restore_backups (reg_stack hw) (regs hw)
           \<and> set s \<subseteq> set (reg_stack hw)"
  using assms
proof (induction hw rule: ExitScope_restore.induct)
  case (1 hw)
  let ?c = "reg_stack hw \<noteq> [] \<and> RegBackup.scope (last (reg_stack hw)) = CurScope hw"
  show ?case
  proof (cases ?c)
    case False
    then have "ExitScope_restore hw = Inr (hw\<lparr>regs := regs hw, reg_stack := reg_stack hw\<rparr>)"
      by (subst ExitScope_restore.simps) auto
    then show ?thesis by blast
  next
    case True
    let ?hw = "hw\<lparr>regs := (regs hw)(reg_id (last (reg_stack hw)) := val (last (reg_stack hw))),
                  reg_stack := butlast (reg_stack hw)\<rparr>"
    have ok: "reg_id (last (reg_stack hw)) < CPU_SIZE"
      using True "1.prems" by simp
    have ok': "\<forall>b\<in>set (reg_stack ?hw). reg_id b < CPU_SIZE"
      using "1.prems" by (auto dest: in_set_butlastD)
    from "1.IH"[OF True ok ok'] obtain r s where
      rs: "ExitScope_restore ?hw = Inr (?hw\<lparr>regs := r, reg_stack := s\<rparr>)"
        "restore_backups s r = restore_backups (reg_stack ?hw) (regs ?hw)"
        "set s \<subseteq> set (reg_stack ?hw)"
      by blast
    have e: "ExitScope_restore hw = ExitScope_restore ?hw"
      using True ok by (subst ExitScope_restore.simps) simp
    have split: "reg_stack hw = butlast (reg_stack hw) @ [last (reg_stack hw)]"
      using True by simp
    have "restore_backups (reg_stack hw) (regs hw) = restore_backups (reg_stack ?hw) (regs ?hw)"
      by (subst split) (simp del: append_butlast_last_id)
    with rs e show ?thesis
      by (intro exI[of _ r] exI[of _ s]) (auto dest: in_set_butlastD)
  qed
qed

lemma ExitScope_frame:
  assumes "1 < length (scope_stack hw)" "length (scope_stack hw) \<le> CPU_SIZE"
    and "\<forall>b\<in>set (reg_stack hw). reg_id b < CPU_SIZE"
  shows "\<exists>r s. ExitScope hw = Inr (hw\<lparr>regs := r, reg_stack := s,
                                     scope_stack := butlast (scope_stack hw)\<rparr>)
           \<and> restore_backups s r = restore_backups (reg_stack hw) (regs hw)
           \<and> set s \<subseteq> set (reg_stack hw)"
proof -
  from ExitScope_restore_frame[OF assms(3)] obtain r s where
    "ExitScope_restore hw = Inr (hw\<lparr>regs := r, reg_stack := s\<rparr>)"
    "restore_backups s r = restore_backups (reg_stack hw) (regs hw)"
    "set s \<subseteq> set (reg_stack hw)"
    by blast
  with assms(1,2) show ?thesis
    by (intro exI[of _ r] exI[of _ s]) (simp add: ExitScope_def)
qed

lemma ResetIP_exit_frame:
  assumes "1 \<le> length (scope_stack hw)" "length (scope_stack hw) \<le> CPU_SIZE"
    and "\<forall>b\<in>set (reg_stack hw). reg_id b < CPU_SIZE"
  shows "\<exists>r s. ResetIP_exit hw = Inr (hw\<lparr>regs := r, reg_stack := s,
                                        scope_stack := [hd (scope_stack hw)]\<rparr>)
           \<and> restore_backups s r = restore_backups (reg_stack hw) (regs hw)
           \<and> set s \<subseteq> set (reg_stack hw)"
  using assms
proof (induction hw rule: ResetIP_exit.induct)
  case (1 hw)
  show ?case
  proof (cases "1 < length (scope_stack hw)")
    case False
    with "1.prems"(1) have "scope_stack hw = [hd (scope_stack hw)]"
      by (cases "scope_stack hw") auto
    then have "hw\<lparr>regs := regs hw, reg_stack := reg_stack hw,
                  scope_stack := [hd (scope_stack hw)]\<rparr> = hw"
      by simp
    moreover have "ResetIP_exit hw = Inr hw"
      using False by (subst ResetIP_exit.simps) simp
    ultimately show ?thesis
      by (intro exI[of _ "regs hw"] exI[of _ "reg_stack hw"]) simp
  next
    case True
    from ExitScope_frame[OF True "1.prems"(2,3)] obtain r s where
      e: "ExitScope hw = Inr (hw\<lparr>regs := r, reg_stack := s,
                                 scope_stack := butlast (scope_stack hw)\<rparr>)"
      and rs: "restore_backups s r = restore_backups (reg_stack hw) (regs hw)"
        "set s \<subseteq> set (reg_stack hw)"
      by blast
    let ?hw1 = "hw\<lparr>regs := r, reg_stack := s, scope_stack := butlast (scope_stack hw)\<rparr>"
    have p: "1 \<le> length (scope_stack ?hw1)" "length (scope_stack ?hw1) \<le> CPU_SIZE"
      "\<forall>b\<in>set (reg_stack ?hw1). reg_id b < CPU_SIZE"
      using True "1.prems" rs(2) by auto
    from "1.IH"[OF True e p] obtain r' s' where
      x: "ResetIP_exit ?hw1 = Inr (?hw1\<lparr>regs := r', reg_stack := s',
                                         scope_stack := [hd (scope_stack ?hw1)]\<rparr>)"
      and rs': "restore_backups s' r' = restore_backups (reg_stack ?hw1) (regs ?hw1)"
        "set s' \<subseteq> set (reg_stack ?hw1)"
      by blast
    have h: "hd (butlast (scope_stack hw)) = hd (scope_stack hw)"
      using True by (cases "scope_stack hw") auto
    have "ResetIP_exit hw = ResetIP_exit ?hw1"
      using True e by (subst ResetIP_exit.simps) simp
    with x rs rs' h show ?thesis
      by (intro exI[of _ r'] exI[of _ s']) auto
  qed
qed

lemma ResetIP_restore_all:
  assumes "\<forall>b\<in>set (reg_stack hw). reg_id b < CPU_SIZE"
  shows "ResetIP_restore hw
           = Inr (hw\<lparr>regs := restore_backups (reg_stack hw) (regs hw), reg_stack := []\<rparr>)"
  using assms
proof (induction "reg_stack hw" arbitrary: hw rule: rev_induct)
  case Nil
  then show ?case by (subst ResetIP_restore.simps) simp
next
  case (snoc b bs)
  let ?hw = "hw\<lparr>regs := (regs hw)(reg_id b := val b), reg_stack := bs\<rparr>"
  have eq: "reg_stack hw = bs @ [b]" using snoc.hyps(2) by simp
  have "ResetIP_restore hw = ResetIP_restore ?hw"
    using snoc.prems eq by (subst ResetIP_restore.simps) simp
  also have "\<dots> = Inr (?hw\<lparr>regs := restore_backups (reg_stack ?hw) (regs ?hw), reg_stack := []\<rparr>)"
    using snoc.prems eq by (intro snoc.hyps(1)) auto
  finally show ?case using eq by simp
qed

lemma ResetIP_result:
  assumes "1 \<le> length (scope_stack hw)" "length (scope_stack hw) \<le> CPU_SIZE"
    and "\<forall>b\<in>set (reg_stack hw). reg_id b < CPU_SIZE"
  shows "ResetIP hw = Inr (hw\<lparr>inst_ptr := 0,
                             scope_stack := [hd (scope_stack hw)],
                             regs := restore_backups (reg_stack hw) (regs hw),
                             reg_stack := [],
                             call_stack := []\<rparr>)"
proof -
  let ?hw0 = "hw\<lparr>inst_ptr := 0\<rparr>"
  have p: "1 \<le> length (scope_stack ?hw0)" "length (scope_stack ?hw0) \<le> CPU_SIZE"
    "\<forall>b\<in>set (reg_stack ?hw0). reg_id b < CPU_SIZE"
    using assms by auto
  from ResetIP_exit_frame[OF p] obtain r s where
    x: "ResetIP_exit ?hw0 = Inr (?hw0\<lparr>regs := r, reg_stack := s,
                                       scope_stack := [hd (scope_stack ?hw0)]\<rparr>)"
    and rs: "restore_backups s r = restore_backups (reg_stack ?hw0) (regs ?hw0)"
      "set s \<subseteq> set (reg_stack ?hw0)"
    by blast
  let ?hw1 = "?hw0\<lparr>regs := r, reg_stack := s, scope_stack := [hd (scope_stack ?hw0)]\<rparr>"
  have "\<forall>b\<in>set (reg_stack ?hw1). reg_id b < CPU_SIZE"
    using rs(2) assms(3) by auto
  from ResetIP_restore_all[OF this] x rs(1) show ?thesis
    by (simp add: ResetIP_def)
qed

text \<open>
  Claim C5. When \<open>SingleProcess\<close> is called with the instruction pointer at or past the
  end of a genome that is not empty, on a scope stack of 1 to \<open>CPU_SIZE\<close> frames and with
  backups of real registers only, then \<open>ResetIP\<close> succeeds before anything is dispatched:
  the scope stack is cut down to its bottom frame, every pending backup is written back
  (newest first) and the backup stack is empty, the call stack is empty and the pointer
  is 0. The step then dispatches the instruction at position 0 on that state and
  advances the pointer.
\<close>

theorem SingleProcess_past_end:
  assumes "inst_ptr hw \<ge> length (genome hw)" "genome hw \<noteq> []"
    and "1 \<le> length (scope_stack hw)" "length (scope_stack hw) \<le> CPU_SIZE"
    and "\<forall>b\<in>set (reg_stack hw). reg_id b < CPU_SIZE"
  shows "ResetIP hw = Inr (hw\<lparr>inst_ptr := 0,
                             scope_stack := [hd (scope_stack hw)],
                             regs := restore_backups (reg_stack hw) (regs hw),
                             reg_stack := [],
                             call_stack := []\<rparr>)
       \<and> SingleProcess hw =
           ebind (ProcessInst (hw\<lparr>inst_ptr := 0,
                                   scope_stack := [hd (scope_stack hw)],
                                   regs := restore_backups (reg_stack hw) (regs hw),
                                   reg_stack := [],
                                   call_stack := []\<rparr>) (genome hw ! 0))
             (\<lambda>hw2. Inr (hw2\<lparr>inst_ptr := inst_ptr hw2 + 1\<rparr>))"
  using assms(1,2) ResetIP_result[OF assms(3,4,5)]
  by (simp add: SingleProcess_def GetInst_def)

subsection \<open>Looking up the default catalog\<close>

lemma DefaultInstLib_funs:
  "map fun_call DefaultInstLib =
     [F_Inc, F_Dec, F_Not, F_SetReg, F_Add, F_Sub, F_Mult, F_Div, F_Mod, F_TestEqu, F_TestNEqu,
      F_TestLess, F_If, F_While, F_Countdown, F_Break, F_Scope, F_Define, F_Call, F_SetMem,
      F_GetMem, F_CopyMem, F_ShiftMem, F_SetBoard, F_EndTurn, F_GetSquareCurr, F_GetValidAbove,
      F_GetValidBelow, F_GetValidLeft, F_GetValidRight, F_GetValidUL, F_GetValidUR,
      F_GetValidLL, F_GetValidLR, F_Input, F_Output, F_CopyVal, F_ScopeReg]"
  by (simp add: DefaultInstLib_def AddInst_def)

lemma DefaultInstLib_scope_types:
  "map scope_type DefaultInstLib =
     [NONE, NONE, NONE, NONE, NONE, NONE, NONE, NONE, NONE, NONE, NONE, NONE,
      BASIC, LOOP, LOOP, NONE, BASIC, FUNCTION, NONE, NONE, NONE, NONE, NONE, NONE, NONE, NONE,
      NONE, NONE, NONE, NONE, NONE, NONE, NONE, NONE, NONE, NONE, NONE, NONE]"
  by (simp add: DefaultInstLib_def AddInst_def)

lemma DefaultInstLib_scope_args:
  "map scope_arg DefaultInstLib =
     [no_scope_arg, no_scope_arg, no_scope_arg, no_scope_arg, no_scope_arg, no_scope_arg,
      no_scope_arg, no_scope_arg, no_scope_arg, no_scope_arg, no_scope_arg, no_scope_arg,
      1, 1, 1, no_scope_arg, 0, 1, no_scope_arg, no_scope_arg, no_scope_arg, no_scope_arg,
      no_scope_arg, no_scope_arg, no_scope_arg, no_scope_arg, no_scope_arg, no_scope_arg,
      no_scope_arg, no_scope_arg, no_scope_arg, no_scope_arg, no_scope_arg, no_scope_arg,
      no_scope_arg, no_scope_arg, no_scope_arg, no_scope_arg]"
  by (simp add: DefaultInstLib_def AddInst_def)

lemma length_DefaultInstLib: "length DefaultInstLib = 38"
  using arg_cong[OF DefaultInstLib_funs, of length] by simp

lemma GetFunCall_Default:
  "GetFunCall DefaultInstLib i
     = (if i < 38 then Inr (map fun_call DefaultInstLib ! i) else Inl OutOfRange)"
  by (simp add: GetFunCall_def length_DefaultInstLib)

lemma GetScopeType_Default:
  "GetScopeType DefaultInstLib i
     = (if i < 38 then Inr (map scope_type DefaultInstLib ! i) else Inl OutOfRange)"
  by (simp add: GetScopeType_def length_DefaultInstLib)

lemma GetScopeArg_Default:
  "GetScopeArg DefaultInstLib i
     = (if i < 38 then Inr (map scope_arg DefaultInstLib ! i) else Inl OutOfRange)"
  by (simp add: GetScopeArg_def length_DefaultInstLib)

lemmas catalog_simps =
  GetFunCall_Default GetScopeType_Default GetScopeArg_Default
  DefaultInstLib_funs DefaultInstLib_scope_types DefaultInstLib_scope_args

lemma loaded_simps:
  "inst_lib (loaded g) = DefaultInstLib"
  "genome (loaded g) = g"
  "regs (loaded g) = (\<lambda>i. if i < CPU_SIZE then real i else 0)"
  "inst_ptr (loaded g) = 0"
  "scope_stack (loaded g) = [\<lparr>ScopeInfo.scope = 0, type = ROOT, start_pos = 0\<rparr>]"
  "reg_stack (loaded g) = []"
  "call_stack (loaded g) = []"
  "errors (loaded g) = 0"
  "fun_starts (loaded g) = (\<lambda>i. if i < CPU_SIZE then - 1 else 0)"
  "traits (loaded g) = (replicate 101 0)[100 := 0]"
  by (simp_all add: loaded_def SetGenome_def AvidaGP_new_def Reset_def ResetHardware_def
      SetTrait_def resize_def fun_eq_iff GetTrait_def vec_at_def)

text \<open>The equations that evaluate a step on a concrete machine.\<close>

lemmas step_simps =
  SingleProcess_def GetInst_def ProcessInst.simps UpdateScope.simps catalog_simps
  Inst_Inc_def Inst_Break_def Inst_ScopeReg_def Inst_SetReg_def
  reg_read_def reg_write_def CurScope_def CurScopeType_def size_t_inc_def CPU_SIZE_def
  ExitScope_def ExitScope_restore.simps BypassScope_def BypassScope_scan.simps InstScope_def
  arg_at_def ResetIP_def ResetIP_exit.simps ResetIP_restore.simps

lemma Process_numeral:
  "Process hw (numeral k) =
     ebind (GetTrait hw 100) (\<lambda>t.
       if t = 1 then Inr hw else ebind (SingleProcess hw) (\<lambda>hw1. Process hw1 (pred_numeral k)))"
  by (simp add: numeral_eq_Suc)

lemmas run_simps = Process_numeral GetTrait_def vec_at_def step_simps loaded_simps

lemma g5_end_reachable: "Process (loaded g5) 3 = Inr g5_end"
  by (simp add: run_simps g5_def g5_end_def fun_upd_def)

theorem SingleProcess_past_end_witness:
  "inst_ptr g5_end \<ge> length (genome g5_end) \<and> genome g5_end \<noteq> []
   \<and> 1 \<le> length (scope_stack g5_end) \<and> length (scope_stack g5_end) \<le> CPU_SIZE
   \<and> ResetIP g5_end = Inr ((loaded g5)\<lparr>call_stack := []\<rparr>)
   \<and> SingleProcess g5_end = Inr ((loaded g5)\<lparr>inst_ptr := 1, scope_stack :=
         [\<lparr>ScopeInfo.scope = 0, type = ROOT, start_pos = 0\<rparr>,
          \<lparr>ScopeInfo.scope = 1, type = BASIC, start_pos = 0\<rparr>]\<rparr>)"
proof -
  have 1: "inst_ptr g5_end \<ge> length (genome g5_end)" "genome g5_end \<noteq> []"
    "1 \<le> length (scope_stack g5_end)" "length (scope_stack g5_end) \<le> CPU_SIZE"
    "\<forall>b\<in>set (reg_stack g5_end). reg_id b < CPU_SIZE"
    by (simp_all add: g5_end_def loaded_simps g5_def CPU_SIZE_def)
  let ?r = "g5_end\<lparr>inst_ptr := 0, scope_stack := [hd (scope_stack g5_end)],
        regs := restore_backups (reg_stack g5_end) (regs g5_end), reg_stack := [],
        call_stack := []\<rparr>"
  have r: "?r = loaded g5"
    by (simp add: g5_end_def loaded_def SetGenome_def AvidaGP_new_def Reset_def
        ResetHardware_def SetTrait_def resize_def fun_eq_iff restore_backups_def CPU_SIZE_def)
  have d: "ebind (ProcessInst (loaded g5) (genome g5_end ! 0))
             (\<lambda>hw2. Inr (hw2\<lparr>inst_ptr := inst_ptr hw2 + 1\<rparr>))
           = Inr ((loaded g5)\<lparr>inst_ptr := 1, scope_stack :=
               [\<lparr>ScopeInfo.scope = 0, type = ROOT, start_pos = 0\<rparr>,
                \<lparr>ScopeInfo.scope = 1, type = BASIC, start_pos = 0\<rparr>]\<rparr>)"
    by (simp add: step_simps loaded_simps g5_def g5_end_def)
  have c: "(loaded g5)\<lparr>call_stack := []\<rparr> = loaded g5"
    by (simp add: loaded_def SetGenome_def AvidaGP_new_def Reset_def ResetHardware_def)
  from SingleProcess_past_end [OF 1] show ?thesis
    unfolding r c using 1 d by simp
qed

subsection \<open>Bypassing a scope\<close>

lemma InstScope_inst_ptr [simp]: "InstScope (hw\<lparr>inst_ptr := p\<rparr>) i = InstScope hw i"
  by (simp add: InstScope_def split: sum.splits)

lemma InstScope_inst_lib: "inst_lib hw' = inst_lib hw \<Longrightarrow> InstScope hw' i = InstScope hw i"
  by (simp add: InstScope_def split: sum.splits)

lemma ends_bypass_inst_ptr [simp]: "ends_bypass (hw\<lparr>inst_ptr := p\<rparr>) sc = ends_bypass hw sc"
  by (simp add: ends_bypass_def fun_eq_iff)

lemma BypassScope_scan_target:
  assumes "\<forall>j<length (genome hw). \<exists>s. InstScope hw (genome hw ! j) = Inr s"
  shows "BypassScope_scan hw sc = Inr (hw\<lparr>inst_ptr := scan_target hw sc\<rparr>)"
  using assms
proof (induction hw sc rule: BypassScope_scan.induct)
  case (1 hw sc)
  let ?n = "length (genome hw)"
  let ?ip = "inst_ptr hw"
  show ?case
  proof (cases "?ip + 1 < ?n")
    case False
    then have "scan_target hw sc = ?ip"
      by (simp add: scan_target_def)
    moreover have "BypassScope_scan hw sc = Inr hw"
      using False by (subst BypassScope_scan.simps) simp
    ultimately show ?thesis by simp
  next
    case True
    let ?hw1 = "hw\<lparr>inst_ptr := ?ip + 1\<rparr>"
    from "1.prems" True obtain s where s: "InstScope hw (genome hw ! (?ip + 1)) = Inr s"
      by blast
    show ?thesis
    proof (cases "s \<noteq> 0 \<and> s \<le> sc")
      case stop: True
      then have "ends_bypass hw sc (?ip + 1)"
        using s by (simp add: ends_bypass_def)
      then have "scan_target hw sc = ?ip"
        using True by (simp add: scan_target_def upt_conv_Cons)
      moreover have "BypassScope_scan hw sc = Inr (?hw1\<lparr>inst_ptr := inst_ptr ?hw1 - 1\<rparr>)"
        using True s stop by (subst BypassScope_scan.simps) (simp add: Let_def)
      ultimately show ?thesis by simp
    next
      case go: False
      then have nb: "\<not> ends_bypass hw sc (?ip + 1)"
        using s by (simp add: ends_bypass_def)
      have s1: "InstScope ?hw1 (genome ?hw1 ! inst_ptr ?hw1) = Inr s"
        using s by simp
      have wf1: "\<forall>j<length (genome ?hw1). \<exists>s. InstScope ?hw1 (genome ?hw1 ! j) = Inr s"
        using "1.prems" by simp
      have ih: "BypassScope_scan ?hw1 sc = Inr (?hw1\<lparr>inst_ptr := scan_target ?hw1 sc\<rparr>)"
        using "1.IH"[OF True refl s1 go wf1] .
      have "[Suc ?ip ..< ?n] = Suc ?ip # [Suc (Suc ?ip) ..< ?n]"
        using True by (simp add: upt_conv_Cons)
      then have f: "filter (ends_bypass hw sc) [Suc ?ip ..< ?n]
                    = filter (ends_bypass hw sc) [Suc (Suc ?ip) ..< ?n]"
        using nb by simp
      have "scan_target ?hw1 sc = scan_target hw sc"
        using True by (auto simp add: scan_target_def f split: list.splits)
      moreover have "BypassScope_scan hw sc = BypassScope_scan ?hw1 sc"
        using True s go by (subst BypassScope_scan.simps) (auto simp add: Let_def)
      ultimately show ?thesis using ih by simp
    qed
  qed
qed

lemma ExitScope_restore_changes:
  "ExitScope_restore hw = Inr hw' \<Longrightarrow> \<exists>r s. hw' = hw\<lparr>regs := r, reg_stack := s\<rparr>"
proof (induction hw rule: ExitScope_restore.induct)
  case (1 hw)
  show ?case
  proof (cases "reg_stack hw \<noteq> [] \<and> RegBackup.scope (last (reg_stack hw)) = CurScope hw")
    case False
    then have "hw' = hw\<lparr>regs := regs hw, reg_stack := reg_stack hw\<rparr>"
      using "1.prems" by (subst (asm) ExitScope_restore.simps) auto
    then show ?thesis by blast
  next
    case True
    let ?hw = "hw\<lparr>regs := (regs hw)(reg_id (last (reg_stack hw)) := val (last (reg_stack hw))),
                  reg_stack := butlast (reg_stack hw)\<rparr>"
    have ok: "reg_id (last (reg_stack hw)) < CPU_SIZE"
      using True "1.prems" by (subst (asm) ExitScope_restore.simps) (auto split: if_splits)
    then have "ExitScope_restore ?hw = Inr hw'"
      using True "1.prems" by (subst (asm) ExitScope_restore.simps) simp
    from "1.IH"[OF True ok this] obtain r s where "hw' = ?hw\<lparr>regs := r, reg_stack := s\<rparr>"
      by blast
    then have "hw' = hw\<lparr>regs := r, reg_stack := s\<rparr>" by simp
    then show ?thesis by blast
  qed
qed

lemma ExitScope_changes:
  assumes "ExitScope hw = Inr hw'"
  shows "\<exists>r s. hw' = hw\<lparr>regs := r, reg_stack := s, scope_stack := butlast (scope_stack hw)\<rparr>"
proof -
  from assms obtain hw1 where 1: "ExitScope_restore hw = Inr hw1"
    and 2: "hw' = hw1\<lparr>scope_stack := butlast (scope_stack hw1)\<rparr>"
    by (auto simp: ExitScope_def split: if_splits sum.splits)
  from ExitScope_restore_changes[OF 1] obtain r s where "hw1 = hw\<lparr>regs := r, reg_stack := s\<rparr>"
    by blast
  with 2 show ?thesis by auto
qed

text \<open>
  Claim C4, as amended. \<open>BypassScope\<close> starts with a guard: when the current scope is
  shallower than \<open>target_depth + 1\<close> it returns at once and nothing changes. Otherwise it
  exits the current innermost frame, whatever the target depth is, and the forward scan
  leaves the pointer one position before the first later instruction that opens a scope
  of nonzero depth at most \<open>target_depth + 1\<close>, or on the last instruction of the genome
  when there is none. (Every opcode of the genome is assumed to be in the catalog.)
\<close>

theorem BypassScope_guarded_exit_and_scan:
  assumes "scope_stack hw \<noteq> []"
    and "\<forall>j<length (genome hw). \<exists>s. InstScope hw (genome hw ! j) = Inr s"
  shows "(CurScope hw < size_t_inc target_depth \<longrightarrow> BypassScope hw target_depth = Inr hw)
       \<and> (size_t_inc target_depth \<le> CurScope hw \<longrightarrow>
            BypassScope hw target_depth =
              ebind (ExitScope hw)
                (\<lambda>hw1. Inr (hw1\<lparr>inst_ptr := scan_target hw1 (size_t_inc target_depth)\<rparr>)))"
proof -
  have scan: "BypassScope_scan hw1 sc = Inr (hw1\<lparr>inst_ptr := scan_target hw1 sc\<rparr>)"
    if "ExitScope hw = Inr hw1" for hw1 sc
  proof -
    from ExitScope_changes[OF that] obtain r s where
      "hw1 = hw\<lparr>regs := r, reg_stack := s, scope_stack := butlast (scope_stack hw)\<rparr>"
      by blast
    then have "genome hw1 = genome hw" "inst_lib hw1 = inst_lib hw"
      by simp_all
    then have "genome hw1 = genome hw" "InstScope hw1 = InstScope hw"
      using InstScope_inst_lib[of hw1 hw] by (simp_all add: fun_eq_iff)
    then have "\<forall>j<length (genome hw1). \<exists>s. InstScope hw1 (genome hw1 ! j) = Inr s"
      using assms(2) by simp
    then show ?thesis by (rule BypassScope_scan_target)
  qed
  have a: "BypassScope hw target_depth = Inr hw" if "CurScope hw < size_t_inc target_depth"
    using that assms(1) by (simp add: BypassScope_def)
  have b: "BypassScope hw target_depth =
              ebind (ExitScope hw)
                (\<lambda>hw1. Inr (hw1\<lparr>inst_ptr := scan_target hw1 (size_t_inc target_depth)\<rparr>))"
    if le: "size_t_inc target_depth \<le> CurScope hw"
  proof (cases "ExitScope hw")
    case (Inl e)
    then show ?thesis using le assms(1) by (simp add: BypassScope_def)
  next
    case (Inr hw1)
    then show ?thesis using le assms(1) scan[OF Inr] by (simp add: BypassScope_def)
  qed
  from a b show ?thesis by blast
qed

lemma gB_in_reachable: "Process (loaded gB) 1 = Inr gB_in"
  by (simp add: run_simps gB_def gB_in_def)

lemma gB_in_simps:
  "inst_lib gB_in = DefaultInstLib"
  "genome gB_in = gB"
  "inst_ptr gB_in = 1"
  "scope_stack gB_in = [\<lparr>ScopeInfo.scope = 0, type = ROOT, start_pos = 0\<rparr>,
                        \<lparr>ScopeInfo.scope = 1, type = BASIC, start_pos = 0\<rparr>]"
  "reg_stack gB_in = []"
  by (simp_all add: gB_in_def loaded_simps)

text \<open>
  The claim as stated fails on this state: \<open>BypassScope\<close> with target depth 5, the
  bypass of \<open>Break 5\<close>, exits no frame. The machine stays in scope 1 and the step only
  advances the pointer.
\<close>

theorem BypassScope_no_exit_counterexample:
  "BypassScope gB_in 5 = Inr gB_in
   \<and> scope_stack gB_in = [\<lparr>ScopeInfo.scope = 0, type = ROOT, start_pos = 0\<rparr>,
                            \<lparr>ScopeInfo.scope = 1, type = BASIC, start_pos = 0\<rparr>]
   \<and> SingleProcess gB_in = Inr (gB_in\<lparr>inst_ptr := 2\<rparr>)"
  by (simp add: step_simps gB_in_simps gB_def)

theorem BypassScope_guarded_exit_and_scan_witness:
  "scope_stack gB_in \<noteq> []
   \<and> CurScope gB_in < size_t_inc 5
   \<and> BypassScope gB_in 5 = Inr gB_in
   \<and> size_t_inc 0 \<le> CurScope gB_in
   \<and> BypassScope gB_in 0
       = Inr (gB_in\<lparr>scope_stack := [\<lparr>ScopeInfo.scope = 0, type = ROOT, start_pos = 0\<rparr>],
                     inst_ptr := 3\<rparr>)"
proof -
  have 1: "scope_stack gB_in \<noteq> []"
    by (simp add: gB_in_simps)
  have "\<forall>i\<in>set (genome gB_in). \<exists>s. InstScope gB_in i = Inr s"
    by (simp add: gB_in_simps gB_def InstScope_def catalog_simps arg_at_def)
  then have 2: "\<forall>j<length (genome gB_in). \<exists>s. InstScope gB_in (genome gB_in ! j) = Inr s"
    by simp
  have c: "CurScope gB_in < size_t_inc 5" "size_t_inc 0 \<le> CurScope gB_in"
    by (simp_all add: CurScope_def gB_in_simps size_t_inc_def)
  have e: "ExitScope gB_in
      = Inr (gB_in\<lparr>scope_stack := [\<lparr>ScopeInfo.scope = 0, type = ROOT, start_pos = 0\<rparr>]\<rparr>)"
    by (simp add: step_simps gB_in_simps)
  have t: "scan_target (gB_in\<lparr>scope_stack := [\<lparr>ScopeInfo.scope = 0, type = ROOT, start_pos = 0\<rparr>]\<rparr>)
             (size_t_inc 0) = 3"
    by (simp add: scan_target_def ends_bypass_def gB_in_simps gB_def InstScope_def catalog_simps
        arg_at_def size_t_inc_def upt_rec_numeral)
  from BypassScope_guarded_exit_and_scan [OF 1 2, of 5] c(1)
  have a: "BypassScope gB_in 5 = Inr gB_in" by blast
  from BypassScope_guarded_exit_and_scan [OF 1 2, of 0] c(2)
  have "BypassScope gB_in 0 = ebind (ExitScope gB_in)
          (\<lambda>hw1. Inr (hw1\<lparr>inst_ptr := scan_target hw1 (size_t_inc 0)\<rparr>))"
    by blast
  then have b: "BypassScope gB_in 0
       = Inr (gB_in\<lparr>scope_stack := [\<lparr>ScopeInfo.scope = 0, type = ROOT, start_pos = 0\<rparr>],
                     inst_ptr := 3\<rparr>)"
    by (simp add: e t)
  show ?thesis using 1 c a b by simp
qed

subsection \<open>Closing a loop\<close>


lemmas loop_simps = countdown_start_def in_loop_def after_loop_def gL_def fun_eq_iff

lemma Process_add:
  "Process hw (m + n) = ebind (Process hw m) (\<lambda>hw'. Process hw' n)"
proof (induction m arbitrary: hw)
  case 0
  show ?case by simp
next
  case (Suc m)
  show ?case
  proof (cases "GetTrait hw 100")
    case (Inl e)
    then show ?thesis by simp
  next
    case (Inr t)
    show ?thesis
    proof (cases "t = 1")
      case True
      then show ?thesis using Inr by (cases n) simp_all
    next
      case False
      then show ?thesis using Inr Suc.IH by (cases "SingleProcess hw") simp_all
    qed
  qed
qed

lemma after_loop_continues:
  "Process (after_loop c) 2
     = Inr ((loaded gL)\<lparr>inst_ptr := 4,
            scope_stack := [\<lparr>ScopeInfo.scope = 0, type = ROOT, start_pos = 0\<rparr>,
                            \<lparr>ScopeInfo.scope = 1, type = BASIC, start_pos = 2\<rparr>],
            regs := (regs (loaded gL))(1 := c, 2 := 0, 3 := 4)\<rparr>)"
  by (simp add: run_simps loop_simps)


subsection \<open>Calling a function\<close>

text \<open>
  Claim C8, as amended. \<open>Call\<close> changes nothing, the error counter included, when the
  entry address of the slot is not a position of the genome (the undefined address -1
  is \<open>2^64 - 1\<close> as a \<open>size_t\<close>) or the instruction there does not open a Function-kind
  scope; the depth of that instruction is not checked against anything. Otherwise
  \<open>Call\<close> resolves the depth of the defining instruction through \<open>UpdateScope\<close> as a
  Function-kind scope. When that enters the scope, as it does at once when the depth is
  deeper than the current scope, \<open>Call\<close> pushes the pointer plus one on the call stack
  and sets the pointer to the entry address plus one. When \<open>UpdateScope\<close> reports that it
  did not enter, \<open>Call\<close> returns the state \<open>UpdateScope\<close> left: nothing is pushed on the
  call stack and the pointer is not moved to the function.
\<close>

theorem Inst_Call_cases:
  assumes "a0 args < CPU_SIZE"
    and "def_pos = int_to_size_t (fun_starts hw (a0 args))"
    and "fun_scope = a1 (inst_args (genome hw ! def_pos))"
  shows "(length (genome hw) \<le> def_pos \<longrightarrow> Inst_Call hw args = Inr hw)
       \<and> (fun_starts hw (a0 args) = - 1 \<and> length (genome hw) < 2 ^ 64 \<longrightarrow>
             Inst_Call hw args = Inr hw)
       \<and> (\<forall>st. def_pos < length (genome hw)
               \<and> GetScopeType (inst_lib hw) (inst_id (genome hw ! def_pos)) = Inr st
               \<and> st \<noteq> FUNCTION \<longrightarrow> Inst_Call hw args = Inr hw)
       \<and> (def_pos < length (genome hw)
            \<and> GetScopeType (inst_lib hw) (inst_id (genome hw ! def_pos)) = Inr FUNCTION \<longrightarrow>
             Inst_Call hw args =
               ebind (UpdateScope hw fun_scope FUNCTION) (\<lambda>(entered, hw1).
                 if entered
                 then Inr (hw1\<lparr>call_stack := call_stack hw1 @ [inst_ptr hw1 + 1],
                               inst_ptr := def_pos + 1\<rparr>)
                 else Inr hw1)
           \<and> (scope_stack hw \<noteq> [] \<and> CurScope hw < size_t_inc fun_scope \<longrightarrow>
                Inst_Call hw args =
                  Inr (hw\<lparr>scope_stack := scope_stack hw @
                             [\<lparr>ScopeInfo.scope = size_t_inc fun_scope, type = FUNCTION,
                               start_pos = inst_ptr hw\<rparr>],
                           call_stack := call_stack hw @ [inst_ptr hw + 1],
                           inst_ptr := def_pos + 1\<rparr>)))"
proof -
  have undef: "int_to_size_t (- 1) = 2 ^ 64 - 1"
    by (simp add: int_to_size_t_def)
  have 1: "Inst_Call hw args = Inr hw" if "length (genome hw) \<le> def_pos"
    using that assms by (simp add: Let_def)
  have 2: "Inst_Call hw args = Inr hw"
    if "fun_starts hw (a0 args) = - 1 \<and> length (genome hw) < 2 ^ 64"
    using that assms undef by (intro 1) simp
  have 3: "Inst_Call hw args = Inr hw"
    if "def_pos < length (genome hw)
        \<and> GetScopeType (inst_lib hw) (inst_id (genome hw ! def_pos)) = Inr st \<and> st \<noteq> FUNCTION"
    for st
    using that assms by (simp add: Let_def)
  have 4: "Inst_Call hw args =
               ebind (UpdateScope hw fun_scope FUNCTION) (\<lambda>(entered, hw1).
                 if entered
                 then Inr (hw1\<lparr>call_stack := call_stack hw1 @ [inst_ptr hw1 + 1],
                               inst_ptr := def_pos + 1\<rparr>)
                 else Inr hw1)"
    if "def_pos < length (genome hw)
        \<and> GetScopeType (inst_lib hw) (inst_id (genome hw ! def_pos)) = Inr FUNCTION"
    using that assms by (auto simp add: Let_def split: sum.splits)
  have 5: "Inst_Call hw args =
                  Inr (hw\<lparr>scope_stack := scope_stack hw @
                             [\<lparr>ScopeInfo.scope = size_t_inc fun_scope, type = FUNCTION,
                               start_pos = inst_ptr hw\<rparr>],
                           call_stack := call_stack hw @ [inst_ptr hw + 1],
                           inst_ptr := def_pos + 1\<rparr>)"
    if "def_pos < length (genome hw)
        \<and> GetScopeType (inst_lib hw) (inst_id (genome hw ! def_pos)) = Inr FUNCTION"
      and "scope_stack hw \<noteq> [] \<and> CurScope hw < size_t_inc fun_scope"
    unfolding 4[OF that(1)] using that(2) by (subst UpdateScope.simps) (simp add: Let_def)
  from 1 2 3 4 5 show ?thesis by blast
qed

lemma size_t_to_int_small [simp]: "size_t_to_int 0 = 0"
  by (simp add: size_t_to_int_def)

lemma gW_in_reachable: "Process (loaded gW) 2 = Inr gW_in"
  by (simp add: run_simps gW_def gW_in_def fun_eq_iff)

text \<open>
  The claim as stated fails on this state. The slot holds a position of the genome and
  the instruction there opens a Function-kind scope, yet \<open>Call\<close> pushes nothing on the
  call stack and does not move the pointer to the function: \<open>UpdateScope\<close> closes the
  loop instead, and the step leaves the machine as it was.
\<close>

theorem Inst_Call_in_loop_counterexample:
  "int_to_size_t (fun_starts gW_in 0) = 0
   \<and> GetScopeType (inst_lib gW_in) (inst_id (genome gW_in ! 0)) = Inr FUNCTION
   \<and> call_stack gW_in = []
   \<and> Inst_Call gW_in (Args 0 0 0) = Inr (gW_in\<lparr>inst_ptr := 2\<rparr>)
   \<and> SingleProcess gW_in = Inr gW_in"
  by (simp add: step_simps loaded_simps gW_def gW_in_def int_to_size_t_def Let_def)

lemma gC_in_reachable: "Process (loaded gC) 2 = Inr gC_in"
  by (simp add: run_simps gC_def gC_in_def fun_eq_iff)

theorem Inst_Call_cases_witness:
  "a0 (Args 0 0 0) < CPU_SIZE
   \<and> fun_starts (loaded gC) 0 = - 1 \<and> length (genome (loaded gC)) < 2 ^ 64
   \<and> Inst_Call (loaded gC) (Args 0 0 0) = Inr (loaded gC)
   \<and> int_to_size_t (fun_starts (gC_in\<lparr>fun_starts := (fun_starts gC_in)(0 := 1)\<rparr>) 0) = 1
   \<and> Inst_Call (gC_in\<lparr>fun_starts := (fun_starts gC_in)(0 := 1)\<rparr>) (Args 0 0 0)
       = Inr (gC_in\<lparr>fun_starts := (fun_starts gC_in)(0 := 1)\<rparr>)
   \<and> int_to_size_t (fun_starts gC_in 0) = 0
   \<and> Inst_Call gC_in (Args 0 0 0)
       = Inr (gC_in\<lparr>scope_stack := [\<lparr>ScopeInfo.scope = 0, type = ROOT, start_pos = 0\<rparr>,
                                      \<lparr>ScopeInfo.scope = 1, type = BASIC, start_pos = 2\<rparr>,
                                      \<lparr>ScopeInfo.scope = 2, type = FUNCTION, start_pos = 3\<rparr>],
                     call_stack := [4], inst_ptr := 1\<rparr>)"
proof -
  let ?stale = "gC_in\<lparr>fun_starts := (fun_starts gC_in)(0 := 1)\<rparr>"
  have a: "a0 (Args 0 0 0) < CPU_SIZE"
    by (simp add: CPU_SIZE_def)
  have u: "fun_starts (loaded gC) (a0 (Args 0 0 0)) = - 1 \<and> length (genome (loaded gC)) < 2 ^ 64"
    by (simp add: loaded_simps gC_def CPU_SIZE_def)
  from Inst_Call_cases [OF a refl refl, of "loaded gC"] u
  have 1: "Inst_Call (loaded gC) (Args 0 0 0) = Inr (loaded gC)"
    by blast
  have d2: "int_to_size_t (fun_starts ?stale (a0 (Args 0 0 0))) = 1"
    by (simp add: int_to_size_t_def)
  have s: "1 < length (genome ?stale)
      \<and> GetScopeType (inst_lib ?stale) (inst_id (genome ?stale ! 1)) = Inr NONE \<and> NONE \<noteq> FUNCTION"
    by (simp add: gC_in_def loaded_simps gC_def catalog_simps)
  from Inst_Call_cases [OF a d2[symmetric] refl] s
  have 2: "Inst_Call ?stale (Args 0 0 0) = Inr ?stale"
    by blast
  have d3: "int_to_size_t (fun_starts gC_in (a0 (Args 0 0 0))) = 0"
    by (simp add: gC_in_def int_to_size_t_def)
  have f: "0 < length (genome gC_in)
      \<and> GetScopeType (inst_lib gC_in) (inst_id (genome gC_in ! 0)) = Inr FUNCTION"
    "scope_stack gC_in \<noteq> [] \<and> CurScope gC_in < size_t_inc (a1 (inst_args (genome gC_in ! 0)))"
    by (simp_all add: gC_in_def loaded_simps gC_def catalog_simps CurScope_def size_t_inc_def)
  from Inst_Call_cases [OF a d3[symmetric] refl] f
  have "Inst_Call gC_in (Args 0 0 0) =
          Inr (gC_in\<lparr>scope_stack := scope_stack gC_in @
                 [\<lparr>ScopeInfo.scope = size_t_inc (a1 (inst_args (genome gC_in ! 0))),
                   type = FUNCTION, start_pos = inst_ptr gC_in\<rparr>],
               call_stack := call_stack gC_in @ [inst_ptr gC_in + 1],
               inst_ptr := 0 + 1\<rparr>)"
    by blast
  then have 3: "Inst_Call gC_in (Args 0 0 0)
       = Inr (gC_in\<lparr>scope_stack := [\<lparr>ScopeInfo.scope = 0, type = ROOT, start_pos = 0\<rparr>,
                                      \<lparr>ScopeInfo.scope = 1, type = BASIC, start_pos = 2\<rparr>,
                                      \<lparr>ScopeInfo.scope = 2, type = FUNCTION, start_pos = 3\<rparr>],
                     call_stack := [4], inst_ptr := 1\<rparr>)"
    by (simp add: gC_in_def loaded_simps gC_def size_t_inc_def)
  show ?thesis
    using a u 1 d2 2 d3 3 by simp
qed

subsection \<open>The depth of the scope stack\<close>

text \<open>
  Claim C1. The bound of \<open>CPU_SIZE = 16\<close> frames, which \<open>ExitScope\<close> asserts, does not
  hold in every reachable state: sixteen steps on the genome \<open>g17\<close> push the scopes 1 to
  16 on top of the root, seventeen frames with strictly increasing scope ids, and the
  next instruction, which has to exit a scope, fails the assertion of \<open>ExitScope\<close>.
\<close>

theorem scope_stack_seventeen_frames:
  "map_sum (\<lambda>e. e) (\<lambda>hw. map ScopeInfo.scope (scope_stack hw)) (Process (loaded g17) 16)
     = Inr [0, 1, 2, 3, 4, 5, 6, 7, 8, 9, 10, 11, 12, 13, 14, 15, 16]
   \<and> map_sum (\<lambda>e. e) (\<lambda>hw. length (scope_stack hw)) (Process (loaded g17) 16) = Inr 17
   \<and> Process (loaded g17) 17 = Inl AssertFail"
  by (simp add: run_simps g17_def)

text \<open>
  The rest of the invariant holds. Leaving a scope pops the top frame of a stack of at
  least two, entering one pushes a frame deeper than the current one, and no other
  instruction touches the scope stack.
\<close>

lemma keeps_root_same:
  "stack_ok hw \<Longrightarrow> scope_stack hw' = scope_stack hw \<Longrightarrow> keeps_root hw hw'"
  by (simp add: keeps_root_def stack_ok_def)

lemma keeps_root_trans:
  "keeps_root hw hw1 \<Longrightarrow> keeps_root hw1 hw2 \<Longrightarrow> keeps_root hw hw2"
  by (simp add: keeps_root_def)

lemma keeps_root_ok: "keeps_root hw hw' \<Longrightarrow> stack_ok hw'"
  by (simp add: keeps_root_def)

lemma keeps_root_stack:
  "keeps_root hw hw1 \<Longrightarrow> scope_stack hw' = scope_stack hw1 \<Longrightarrow> keeps_root hw hw'"
  unfolding keeps_root_def stack_ok_def by auto

lemma stack_ok_stack:
  "stack_ok hw \<Longrightarrow> scope_stack hw' = scope_stack hw \<Longrightarrow> stack_ok hw'"
  unfolding stack_ok_def by auto

lemma stack_ok_butlast:
  assumes "stack_ok hw" "length (scope_stack hw) > 1" "scope_stack hw' = butlast (scope_stack hw)"
  shows "keeps_root hw hw'"
proof -
  obtain xs x where xs: "scope_stack hw = xs @ [x]"
    using assms(1) by (metis stack_ok_def rev_exhaust)
  with assms(2) have ne: "xs \<noteq> []" by auto
  show ?thesis
    using assms(1,3) ne unfolding keeps_root_def stack_ok_def xs
    by (simp add: sorted_wrt_append)
qed

lemma ExitScope_keeps:
  "stack_ok hw \<Longrightarrow> ExitScope hw = Inr hw' \<Longrightarrow> keeps_root hw hw'"
proof (rule stack_ok_butlast)
  assume e: "ExitScope hw = Inr hw'"
  show "1 < length (scope_stack hw)" using e by (auto simp: ExitScope_def split: if_splits)
  show "scope_stack hw' = butlast (scope_stack hw)" using e by (rule ExitScope_scope_stack)
qed

lemma ResetIP_exit_keeps:
  "stack_ok hw \<Longrightarrow> ResetIP_exit hw = Inr hw' \<Longrightarrow> keeps_root hw hw'"
proof (induction hw rule: ResetIP_exit.induct)
  case (1 hw)
  show ?case
  proof (cases "length (scope_stack hw) > 1")
    case True
    then obtain hw1 where e: "ExitScope hw = Inr hw1" and r: "ResetIP_exit hw1 = Inr hw'"
      using "1.prems"(2) by (subst (asm) ResetIP_exit.simps) (auto split: sum.splits)
    have k: "keeps_root hw hw1" using ExitScope_keeps[OF "1.prems"(1) e] .
    have "keeps_root hw1 hw'" using "1.IH"[OF True e keeps_root_ok[OF k] r] .
    with k show ?thesis by (rule keeps_root_trans)
  next
    case False
    then have "hw' = hw" using "1.prems"(2) by (subst (asm) ResetIP_exit.simps) auto
    then show ?thesis using "1.prems"(1) by (simp add: keeps_root_same)
  qed
qed

lemma ResetIP_keeps:
  assumes "stack_ok hw" "ResetIP hw = Inr hw'"
  shows "keeps_root hw hw'"
proof -
  obtain hw1 hw2 where a: "ResetIP_exit (hw\<lparr>inst_ptr := 0\<rparr>) = Inr hw1"
    and b: "ResetIP_restore hw1 = Inr hw2" and c: "hw' = hw2\<lparr>call_stack := []\<rparr>"
    using assms(2) by (auto simp: ResetIP_def split: sum.splits)
  have "stack_ok (hw\<lparr>inst_ptr := 0\<rparr>)" using assms(1) by (simp add: stack_ok_def)
  from ResetIP_exit_keeps[OF this a] have "keeps_root hw hw1" by (simp add: keeps_root_def)
  moreover have "scope_stack hw' = scope_stack hw1"
    using ResetIP_restore_scope_stack[OF b] c by simp
  ultimately show ?thesis by (rule keeps_root_stack)
qed

lemma BypassScope_scan_scope_stack:
  "BypassScope_scan hw sc = Inr hw' \<Longrightarrow> scope_stack hw' = scope_stack hw"
proof (induction hw sc rule: BypassScope_scan.induct)
  case (1 hw sc)
  then show ?case
    by (subst (asm) (2) BypassScope_scan.simps) (auto simp: Let_def split: if_splits sum.splits)
qed

lemma BypassScope_keeps:
  assumes "stack_ok hw" "BypassScope hw sc = Inr hw'"
  shows "keeps_root hw hw'"
proof (cases "CurScope hw < size_t_inc sc")
  case True
  then have "hw' = hw" using assms by (auto simp: BypassScope_def Let_def stack_ok_def)
  then show ?thesis using assms(1) by (simp add: keeps_root_same)
next
  case False
  then obtain hw1 where e: "ExitScope hw = Inr hw1"
    and s: "BypassScope_scan hw1 (size_t_inc sc) = Inr hw'"
    using assms by (auto simp: BypassScope_def Let_def stack_ok_def split: sum.splits)
  have "keeps_root hw hw1" using ExitScope_keeps[OF assms(1) e] .
  then show ?thesis using BypassScope_scan_scope_stack[OF s] by (rule keeps_root_stack)
qed


lemma simple_scope_stack:
  "Inst_Inc hw args = Inr hw' \<Longrightarrow> scope_stack hw' = scope_stack hw"
  "Inst_Dec hw args = Inr hw' \<Longrightarrow> scope_stack hw' = scope_stack hw"
  "Inst_Not hw args = Inr hw' \<Longrightarrow> scope_stack hw' = scope_stack hw"
  "Inst_SetReg hw args = Inr hw' \<Longrightarrow> scope_stack hw' = scope_stack hw"
  "Inst_Add hw args = Inr hw' \<Longrightarrow> scope_stack hw' = scope_stack hw"
  "Inst_Sub hw args = Inr hw' \<Longrightarrow> scope_stack hw' = scope_stack hw"
  "Inst_Mult hw args = Inr hw' \<Longrightarrow> scope_stack hw' = scope_stack hw"
  "Inst_Div hw args = Inr hw' \<Longrightarrow> scope_stack hw' = scope_stack hw"
  "Inst_Mod hw args = Inr hw' \<Longrightarrow> scope_stack hw' = scope_stack hw"
  "Inst_TestEqu hw args = Inr hw' \<Longrightarrow> scope_stack hw' = scope_stack hw"
  "Inst_TestNEqu hw args = Inr hw' \<Longrightarrow> scope_stack hw' = scope_stack hw"
  "Inst_TestLess hw args = Inr hw' \<Longrightarrow> scope_stack hw' = scope_stack hw"
  "Inst_Input hw args = Inr hw' \<Longrightarrow> scope_stack hw' = scope_stack hw"
  "Inst_Output hw args = Inr hw' \<Longrightarrow> scope_stack hw' = scope_stack hw"
  "Inst_CopyVal hw args = Inr hw' \<Longrightarrow> scope_stack hw' = scope_stack hw"
  "Inst_ScopeReg hw args = Inr hw' \<Longrightarrow> scope_stack hw' = scope_stack hw"
  by (auto simp: Inst_Inc_def Inst_Dec_def Inst_Not_def Inst_SetReg_def Inst_Add_def Inst_Sub_def
      Inst_Mult_def Inst_Div_def Inst_Mod_def Inst_TestEqu_def Inst_TestNEqu_def Inst_TestLess_def
      Inst_Input_def Inst_Output_def Inst_CopyVal_def Inst_ScopeReg_def
      reg_read_def reg_write_def split: sum.splits if_splits)

lemma memory_scope_stack:
  "Inst_SetMem hw args = Inr hw' \<Longrightarrow> scope_stack hw' = scope_stack hw"
  "Inst_GetMem hw args = Inr hw' \<Longrightarrow> scope_stack hw' = scope_stack hw"
  "Inst_CopyMem hw args = Inr hw' \<Longrightarrow> scope_stack hw' = scope_stack hw"
  "Inst_ShiftMem hw args = Inr hw' \<Longrightarrow> scope_stack hw' = scope_stack hw"
  "Inst_SetBoard hw args = Inr hw' \<Longrightarrow> scope_stack hw' = scope_stack hw"
  "Inst_EndTurn hw args = Inr hw' \<Longrightarrow> scope_stack hw' = scope_stack hw"
  "Inst_GetSquareCurr hw args = Inr hw' \<Longrightarrow> scope_stack hw' = scope_stack hw"
  by (auto simp: Inst_SetMem_def Inst_GetMem_def Inst_CopyMem_def Inst_ShiftMem_def
      Inst_SetBoard_def Inst_EndTurn_def Inst_GetSquareCurr_def SetMem_def CopyMem_def
      ShiftMem_def SetBoard_def EndTurn_def SetTrait_def Let_def
      reg_read_def reg_write_def split: sum.splits if_splits)

lemma board_scope_stack:
  "Inst_GetValidAbove hw args = Inr hw' \<Longrightarrow> scope_stack hw' = scope_stack hw"
  "Inst_GetValidBelow hw args = Inr hw' \<Longrightarrow> scope_stack hw' = scope_stack hw"
  "Inst_GetValidLeft hw args = Inr hw' \<Longrightarrow> scope_stack hw' = scope_stack hw"
  "Inst_GetValidRight hw args = Inr hw' \<Longrightarrow> scope_stack hw' = scope_stack hw"
  "Inst_GetValidUL hw args = Inr hw' \<Longrightarrow> scope_stack hw' = scope_stack hw"
  "Inst_GetValidUR hw args = Inr hw' \<Longrightarrow> scope_stack hw' = scope_stack hw"
  "Inst_GetValidLL hw args = Inr hw' \<Longrightarrow> scope_stack hw' = scope_stack hw"
  "Inst_GetValidLR hw args = Inr hw' \<Longrightarrow> scope_stack hw' = scope_stack hw"
  by (auto simp: Inst_GetValidAbove_def Inst_GetValidBelow_def Inst_GetValidLeft_def
      Inst_GetValidRight_def Inst_GetValidUL_def Inst_GetValidUR_def Inst_GetValidLL_def
      Inst_GetValidLR_def reg_read_def reg_write_def split: sum.splits if_splits)

lemma sorted_scope_le_last:
  "sorted_wrt (<) (map f xs) \<Longrightarrow> x \<in> set xs \<Longrightarrow> (f x :: nat) \<le> f (last xs)"
proof (induction xs rule: rev_induct)
  case Nil
  then show ?case by simp
next
  case (snoc y ys)
  then show ?case by (auto simp: sorted_wrt_append less_imp_le)
qed

lemma push_keeps:
  assumes "stack_ok hw" "CurScope hw < n"
    and "scope_stack hw' = scope_stack hw @ [\<lparr>ScopeInfo.scope = n, type = ty, start_pos = p\<rparr>]"
  shows "keeps_root hw hw'"
proof -
  have ne: "scope_stack hw \<noteq> []" and so: "sorted_wrt (<) (map ScopeInfo.scope (scope_stack hw))"
    using assms(1) by (simp_all add: stack_ok_def)
  have "\<forall>x\<in>set (scope_stack hw). ScopeInfo.scope x < n"
    using sorted_scope_le_last[OF so] assms(2) by (fastforce simp: CurScope_def)
  then show ?thesis
    using assms(1,3) ne by (simp add: keeps_root_def stack_ok_def sorted_wrt_append)
qed

text \<open>
  \<open>UpdateScope\<close>, the dispatch and the six handlers that call \<open>UpdateScope\<close>, by
  induction along their mutual recursion.
\<close>

lemma dispatch_keeps:
  "stack_ok hw \<longrightarrow> (\<forall>b hw'. UpdateScope hw n ty = Inr (b, hw') \<longrightarrow> keeps_root hw hw')"
  "stack_ok hw2 \<longrightarrow> (\<forall>hw'. ProcessInst hw2 inst = Inr hw' \<longrightarrow> keeps_root hw2 hw')"
  "stack_ok hw3 \<longrightarrow> (\<forall>hw'. Inst_If hw3 args3 = Inr hw' \<longrightarrow> keeps_root hw3 hw')"
  "stack_ok hw4 \<longrightarrow> (\<forall>hw'. Inst_While hw4 args4 = Inr hw' \<longrightarrow> keeps_root hw4 hw')"
  "stack_ok hw5 \<longrightarrow> (\<forall>hw'. Inst_Countdown hw5 args5 = Inr hw' \<longrightarrow> keeps_root hw5 hw')"
  "stack_ok hw6 \<longrightarrow> (\<forall>hw'. Inst_Scope hw6 args6 = Inr hw' \<longrightarrow> keeps_root hw6 hw')"
  "stack_ok hw7 \<longrightarrow> (\<forall>hw'. Inst_Define hw7 args7 = Inr hw' \<longrightarrow> keeps_root hw7 hw')"
  "stack_ok hw8 \<longrightarrow> (\<forall>hw'. Inst_Call hw8 args8 = Inr hw' \<longrightarrow> keeps_root hw8 hw')"
proof (induct hw n ty and hw2 inst and hw3 args3 and hw4 args4 and hw5 args5 and hw6 args6
    and hw7 args7 and hw8 args8
    rule: UpdateScope_ProcessInst_Inst_If_Inst_While_Inst_Countdown_Inst_Scope_Inst_Define_Inst_Call.induct)
  case (1 hw new_scope0 ty)
  show ?case
  proof (intro impI allI)
    fix b hw'
    assume ok: "stack_ok hw" and u: "UpdateScope hw new_scope0 ty = Inr (b, hw')"
    have ne: "scope_stack hw \<noteq> []" using ok by (simp add: stack_ok_def)
    consider (push) "CurScope hw < size_t_inc new_scope0"
      | (loop) "\<not> CurScope hw < size_t_inc new_scope0" "CurScopeType hw = LOOP"
      | (func) "\<not> CurScope hw < size_t_inc new_scope0" "CurScopeType hw \<noteq> LOOP"
          "CurScopeType hw = FUNCTION"
      | (basic) "\<not> CurScope hw < size_t_inc new_scope0" "CurScopeType hw \<noteq> LOOP"
          "CurScopeType hw \<noteq> FUNCTION"
      by blast
    then show "keeps_root hw hw'"
    proof cases
      case push
      then have "scope_stack hw' = scope_stack hw @
          [\<lparr>ScopeInfo.scope = size_t_inc new_scope0, type = ty, start_pos = inst_ptr hw\<rparr>]"
        using u ne by (subst (asm) UpdateScope.simps) (auto simp: Let_def)
      with ok push show ?thesis by (rule push_keeps)
    next
      case loop
      let ?h = "hw\<lparr>inst_ptr := start_pos (last (scope_stack hw))\<rparr>"
      obtain hw1 i where e: "ExitScope ?h = Inr hw1" and g: "GetInst hw1 (inst_ptr hw1) = Inr i"
        and p: "ProcessInst hw1 i = Inr hw'"
        using u ne loop by (subst (asm) UpdateScope.simps) (auto simp: Let_def split: sum.splits)
      have "stack_ok ?h" using ok by (simp add: stack_ok_def)
      from ExitScope_keeps[OF this e] have k: "keeps_root hw hw1" by (simp add: keeps_root_def)
      have "keeps_root hw1 hw'"
        using "1.hyps"(1)[OF ne refl refl loop(1) loop(2) e g] keeps_root_ok[OF k] p by blast
      with k show ?thesis by (rule keeps_root_trans)
    next
      case func
      let ?r = "if length (genome hw) \<le> last (call_stack hw)
            then ResetIP (hw\<lparr>inst_ptr := last (call_stack hw)\<rparr>)
            else ExitScope (hw\<lparr>inst_ptr := last (call_stack hw),
                               call_stack := butlast (call_stack hw)\<rparr>)"
      have cs: "call_stack hw \<noteq> []"
        using u ne func by (subst (asm) UpdateScope.simps) (auto simp: Let_def split: if_splits)
      obtain hw1 i where e: "?r = Inr hw1" and g: "GetInst hw1 (inst_ptr hw1) = Inr i"
        and p: "ProcessInst hw1 i = Inr hw'"
        using u ne func cs
        by (subst (asm) UpdateScope.simps) (auto simp: Let_def split: sum.splits)
      have k: "keeps_root hw hw1"
      proof (cases "length (genome hw) \<le> last (call_stack hw)")
        case True
        have "stack_ok (hw\<lparr>inst_ptr := last (call_stack hw)\<rparr>)"
          using ok by (simp add: stack_ok_def)
        from ResetIP_keeps[OF this] e True show ?thesis by (simp add: keeps_root_def)
      next
        case False
        have "stack_ok (hw\<lparr>inst_ptr := last (call_stack hw),
                           call_stack := butlast (call_stack hw)\<rparr>)"
          using ok by (simp add: stack_ok_def)
        from ExitScope_keeps[OF this] e False show ?thesis by (simp add: keeps_root_def)
      qed
      have "keeps_root hw1 hw'"
        using "1.hyps"(2)[OF ne refl refl func(1) func(2) func(3) cs e g] keeps_root_ok[OF k] p
        by blast
      with k show ?thesis by (rule keeps_root_trans)
    next
      case basic
      obtain hw1 where e: "ExitScope hw = Inr hw1"
        and r: "UpdateScope hw1 (size_t_inc new_scope0) ty = Inr (b, hw')"
        using u ne basic by (subst (asm) UpdateScope.simps) (auto simp: Let_def split: sum.splits)
      have k: "keeps_root hw hw1" using ExitScope_keeps[OF ok e] .
      have "keeps_root hw1 hw'"
        using "1.hyps"(3)[OF ne refl refl basic(1) basic(2) basic(3) e] keeps_root_ok[OF k] r
        by blast
      with k show ?thesis by (rule keeps_root_trans)
    qed
  qed
next
  case (2 hw inst)
  show ?case
  proof (intro impI allI)
    fix hw'
    assume ok: "stack_ok hw" and p: "ProcessInst hw inst = Inr hw'"
    obtain f where f: "GetFunCall (inst_lib hw) (inst_id inst) = Inr f"
      using p by (subst (asm) ProcessInst.simps) (auto split: sum.splits)
    note same = keeps_root_same[OF ok]
    show "keeps_root hw hw'"
      using p f "2.hyps" ok
      by (subst (asm) ProcessInst.simps, cases f)
         (auto intro: same simple_scope_stack memory_scope_stack board_scope_stack
             BypassScope_keeps simp: Inst_Break_def)
  qed
next
  case (3 hw args)
  show ?case
  proof (intro impI allI)
    fix hw'
    assume ok: "stack_ok hw" and p: "Inst_If hw args = Inr hw'"
    obtain e hw1 where u: "UpdateScope hw (a1 args) BASIC = Inr (e, hw1)"
      using p by (auto split: sum.splits)
    have k: "keeps_root hw hw1" using "3.hyps" ok u by blast
    have "keeps_root hw1 hw'"
      using p u keeps_root_ok[OF k]
      by (auto simp: reg_read_def keeps_root_same dest: BypassScope_keeps split: if_splits)
    with k show "keeps_root hw hw'" by (rule keeps_root_trans)
  qed
next
  case (4 hw args)
  show ?case
  proof (intro impI allI)
    fix hw'
    assume ok: "stack_ok hw" and p: "Inst_While hw args = Inr hw'"
    obtain e hw1 where u: "UpdateScope hw (a1 args) LOOP = Inr (e, hw1)"
      using p by (auto split: sum.splits)
    have k: "keeps_root hw hw1" using "4.hyps" ok u by blast
    have "keeps_root hw1 hw'"
      using p u keeps_root_ok[OF k]
      by (auto simp: reg_read_def keeps_root_same dest: BypassScope_keeps split: if_splits)
    with k show "keeps_root hw hw'" by (rule keeps_root_trans)
  qed
next
  case (5 hw args)
  show ?case
  proof (intro impI allI)
    fix hw'
    assume ok: "stack_ok hw" and p: "Inst_Countdown hw args = Inr hw'"
    obtain e hw1 where u: "UpdateScope hw (a1 args) LOOP = Inr (e, hw1)"
      using p by (auto split: sum.splits)
    have k: "keeps_root hw hw1" using "5.hyps" ok u by blast
    have "keeps_root hw1 hw'"
      using p u keeps_root_ok[OF k]
      by (auto simp: reg_read_def reg_write_def keeps_root_same dest: BypassScope_keeps
          split: if_splits)
    with k show "keeps_root hw hw'" by (rule keeps_root_trans)
  qed
next
  case (6 hw args)
  show ?case
  proof (intro impI allI)
    fix hw'
    assume ok: "stack_ok hw" and p: "Inst_Scope hw args = Inr hw'"
    then obtain e where u: "UpdateScope hw (a0 args) BASIC = Inr (e, hw')"
      by (auto split: sum.splits)
    show "keeps_root hw hw'" using "6.hyps" ok u by blast
  qed
next
  case (7 hw args)
  show ?case
  proof (intro impI allI)
    fix hw'
    assume ok: "stack_ok hw" and p: "Inst_Define hw args = Inr hw'"
    obtain e hw1 where u: "UpdateScope hw (a1 args) BASIC = Inr (e, hw1)"
      using p by (auto split: sum.splits)
    have k: "keeps_root hw hw1" using "7.hyps" ok u by blast
    let ?h = "hw1\<lparr>fun_starts := (fun_starts hw1)(a0 args := size_t_to_int (inst_ptr hw1))\<rparr>"
    have s: "stack_ok ?h" using keeps_root_ok[OF k] by (simp add: stack_ok_def)
    have "e = False \<and> hw' = hw1 \<or> BypassScope ?h (a1 args) = Inr hw'"
      using p u by (auto split: if_splits)
    then have "keeps_root hw1 hw'"
    proof
      assume "e = False \<and> hw' = hw1"
      then show ?thesis using keeps_root_ok[OF k] by (simp add: keeps_root_same)
    next
      assume "BypassScope ?h (a1 args) = Inr hw'"
      from BypassScope_keeps[OF s this] show ?thesis by (simp add: keeps_root_def)
    qed
    with k show "keeps_root hw hw'" by (rule keeps_root_trans)
  qed
next
  case (8 hw args)
  show ?case
  proof (intro impI allI)
    fix hw'
    assume ok: "stack_ok hw" and p: "Inst_Call hw args = Inr hw'"
    let ?d = "int_to_size_t (fun_starts hw (a0 args))"
    have a: "a0 args < CPU_SIZE" using p by (auto split: if_splits)
    show "keeps_root hw hw'"
    proof (cases "length (genome hw) \<le> ?d")
      case True
      then have "hw' = hw" using p a by (simp add: Let_def)
      then show ?thesis using ok by (simp add: keeps_root_same)
    next
      case False
      then obtain st where st: "GetScopeType (inst_lib hw) (inst_id (genome hw ! ?d)) = Inr st"
        using p a by (auto simp: Let_def split: sum.splits)
      show ?thesis
      proof (cases "st = FUNCTION")
        case False
        then have "hw' = hw" using p a st \<open>\<not> length (genome hw) \<le> ?d\<close> by (simp add: Let_def)
        then show ?thesis using ok by (simp add: keeps_root_same)
      next
        case True
        obtain e hw1 where u: "UpdateScope hw (a1 (inst_args (genome hw ! ?d))) FUNCTION = Inr (e, hw1)"
          and h: "scope_stack hw' = scope_stack hw1"
          using p a st True \<open>\<not> length (genome hw) \<le> ?d\<close>
          by (auto simp: Let_def split: sum.splits if_splits)
        have "keeps_root hw hw1"
          using "8.hyps"[OF a refl \<open>\<not> length (genome hw) \<le> ?d\<close> st _ refl] True ok u by blast
        then show ?thesis using h by (rule keeps_root_stack)
      qed
    qed
  qed
qed

lemma SingleProcess_keeps:
  assumes "stack_ok hw" "SingleProcess hw = Inr hw'"
  shows "keeps_root hw hw'"
proof -
  let ?r = "if length (genome hw) \<le> inst_ptr hw then ResetIP hw else Inr hw"
  obtain hw1 i hw2 where r: "?r = Inr hw1" and g: "GetInst hw1 (inst_ptr hw1) = Inr i"
    and p: "ProcessInst hw1 i = Inr hw2" and h: "hw' = hw2\<lparr>inst_ptr := inst_ptr hw2 + 1\<rparr>"
    using assms(2) by (auto simp: SingleProcess_def split: sum.splits)
  have k: "keeps_root hw hw1"
    using r assms(1) by (auto simp: keeps_root_same dest: ResetIP_keeps split: if_splits)
  have "keeps_root hw1 hw2" using dispatch_keeps(2) keeps_root_ok[OF k] p by blast
  with k have "keeps_root hw hw2" by (rule keeps_root_trans)
  then show ?thesis using h by (simp add: keeps_root_stack)
qed

lemma Process_keeps:
  "stack_ok hw \<Longrightarrow> Process hw n = Inr hw' \<Longrightarrow> keeps_root hw hw'"
proof (induction n arbitrary: hw)
  case 0
  then show ?case by (simp add: keeps_root_same)
next
  case (Suc n)
  show ?case
  proof (cases "GetTrait hw 100 = Inr 1")
    case True
    then have "hw' = hw" using Suc.prems(2) by simp
    then show ?thesis using Suc.prems(1) by (simp add: keeps_root_same)
  next
    case False
    then obtain hw1 where s: "SingleProcess hw = Inr hw1" and r: "Process hw1 n = Inr hw'"
      using Suc.prems(2) by (auto split: sum.splits if_splits)
    have k: "keeps_root hw hw1" using SingleProcess_keeps[OF Suc.prems(1) s] .
    have "keeps_root hw1 hw'" using Suc.IH[OF keeps_root_ok[OF k] r] .
    with k show ?thesis by (rule keeps_root_trans)
  qed
qed

lemma stack_ok_AvidaGP_new: "stack_ok (AvidaGP_new lib)"
  by (simp add: stack_ok_def AvidaGP_new_def Reset_def ResetHardware_def SetTrait_def resize_def)

text \<open>
  The machine as constructed is well formed whatever genome it is given, and from a well
  formed state a reset, a step and a run of steps in which no assertion fails lead to a
  well formed state with the same bottom frame: the stack always has a frame, the root is
  never popped and the depths increase strictly from the bottom to the top.
\<close>

theorem scope_stack_invariant:
  "stack_ok (SetGenome (AvidaGP_new lib) g)
   \<and> (stack_ok hw \<longrightarrow>
        stack_ok (SetGenome hw g) \<and> keeps_root hw (ResetHardware hw)
        \<and> (\<forall>hw'. ResetIP hw = Inr hw' \<longrightarrow> keeps_root hw hw')
        \<and> (\<forall>hw'. SingleProcess hw = Inr hw' \<longrightarrow> keeps_root hw hw')
        \<and> (\<forall>n hw'. Process hw n = Inr hw' \<longrightarrow> keeps_root hw hw'))"
proof -
  have a: "stack_ok (SetGenome (AvidaGP_new lib) g)"
    using stack_ok_AvidaGP_new[of lib] by (simp add: stack_ok_def SetGenome_def)
  have b: "stack_ok (SetGenome hw g)" if "stack_ok hw"
    using that by (simp add: stack_ok_def SetGenome_def)
  have c: "keeps_root hw (ResetHardware hw)" if ok: "stack_ok hw"
  proof -
    obtain x xs where "scope_stack hw = x # xs"
      using ok by (cases "scope_stack hw") (auto simp: stack_ok_def)
    then show ?thesis
      using ok by (simp add: keeps_root_def stack_ok_def ResetHardware_def resize_def)
  qed
  show ?thesis
    using a b c ResetIP_keeps SingleProcess_keeps Process_keeps by blast
qed

theorem scope_stack_invariant_witness:
  "stack_ok (loaded g5) \<and> Process (loaded g5) 3 = Inr g5_end \<and> keeps_root (loaded g5) g5_end
   \<and> map ScopeInfo.scope (scope_stack g5_end) = [0, 1]"
proof -
  have a: "stack_ok (loaded g5)"
    using scope_stack_invariant[of DefaultInstLib g5] by (simp add: loaded_def)
  have b: "Process (loaded g5) 3 = Inr g5_end" by (rule g5_end_reachable)
  have c: "keeps_root (loaded g5) g5_end"
    using scope_stack_invariant[of DefaultInstLib g5 "loaded g5"] a b by blast
  show ?thesis using a b c by (simp add: g5_end_def)
qed

subsection \<open>Predicting the next instruction\<close>

lemma ResetIP_exit_changes:
  "ResetIP_exit hw = Inr hw' \<Longrightarrow> \<exists>r s t. hw' = hw\<lparr>regs := r, reg_stack := s, scope_stack := t\<rparr>"
proof (induction hw rule: ResetIP_exit.induct)
  case (1 hw)
  show ?case
  proof (cases "1 < length (scope_stack hw)")
    case False
    then have "hw' = hw\<lparr>regs := regs hw, reg_stack := reg_stack hw, scope_stack := scope_stack hw\<rparr>"
      using "1.prems" by (subst (asm) ResetIP_exit.simps) simp
    then show ?thesis by blast
  next
    case True
    then obtain hw1 where e: "ExitScope hw = Inr hw1" and r: "ResetIP_exit hw1 = Inr hw'"
      using "1.prems" by (subst (asm) ResetIP_exit.simps) (auto split: sum.splits)
    from ExitScope_changes[OF e] obtain r1 s1 where
      h1: "hw1 = hw\<lparr>regs := r1, reg_stack := s1, scope_stack := butlast (scope_stack hw)\<rparr>"
      by blast
    from "1.IH"[OF True e r] obtain r2 s2 t2 where
      "hw' = hw1\<lparr>regs := r2, reg_stack := s2, scope_stack := t2\<rparr>"
      by blast
    with h1 have "hw' = hw\<lparr>regs := r2, reg_stack := s2, scope_stack := t2\<rparr>"
      by simp
    then show ?thesis by blast
  qed
qed

lemma ResetIP_restore_changes:
  "ResetIP_restore hw = Inr hw' \<Longrightarrow> \<exists>r s. hw' = hw\<lparr>regs := r, reg_stack := s\<rparr>"
proof (induction hw rule: ResetIP_restore.induct)
  case (1 hw)
  show ?case
  proof (cases "reg_stack hw \<noteq> []")
    case False
    then have "hw' = hw\<lparr>regs := regs hw, reg_stack := reg_stack hw\<rparr>"
      using "1.prems" by (subst (asm) ResetIP_restore.simps) simp
    then show ?thesis by blast
  next
    case True
    let ?hw = "hw\<lparr>regs := (regs hw)(reg_id (last (reg_stack hw)) := val (last (reg_stack hw))),
                  reg_stack := butlast (reg_stack hw)\<rparr>"
    have ok: "reg_id (last (reg_stack hw)) < CPU_SIZE"
      using True "1.prems" by (subst (asm) ResetIP_restore.simps) (auto split: if_splits)
    then have "ResetIP_restore ?hw = Inr hw'"
      using True "1.prems" by (subst (asm) ResetIP_restore.simps) simp
    from "1.IH"[OF True ok this] obtain r s where "hw' = ?hw\<lparr>regs := r, reg_stack := s\<rparr>"
      by blast
    then have "hw' = hw\<lparr>regs := r, reg_stack := s\<rparr>" by simp
    then show ?thesis by blast
  qed
qed

lemma ResetIP_changes:
  assumes "ResetIP hw = Inr hw'"
  shows "\<exists>r s t. hw' = hw\<lparr>inst_ptr := 0, regs := r, reg_stack := s, scope_stack := t,
                            call_stack := []\<rparr>"
proof -
  from assms obtain hw1 hw2 where 1: "ResetIP_exit (hw\<lparr>inst_ptr := 0\<rparr>) = Inr hw1"
    and 2: "ResetIP_restore hw1 = Inr hw2" and 3: "hw' = hw2\<lparr>call_stack := []\<rparr>"
    by (auto simp: ResetIP_def split: sum.splits)
  from ResetIP_exit_changes[OF 1] obtain r1 s1 t1 where
    a: "hw1 = hw\<lparr>inst_ptr := 0, regs := r1, reg_stack := s1, scope_stack := t1\<rparr>"
    by auto
  from ResetIP_restore_changes[OF 2] obtain r2 s2 where
    b: "hw2 = hw1\<lparr>regs := r2, reg_stack := s2\<rparr>"
    by blast
  from a b 3 have "hw' = hw\<lparr>inst_ptr := 0, regs := r2, reg_stack := s2, scope_stack := t1,
                              call_stack := []\<rparr>"
    by simp
  then show ?thesis by blast
qed

lemma SingleProcess_first_dispatched:
  "SingleProcess hw =
     ebind (if length (genome hw) \<le> inst_ptr hw then ResetIP hw else Inr hw) (\<lambda>hw1.
       ebind (GetInst hw1 (first_dispatched hw)) (\<lambda>inst.
         ebind (ProcessInst hw1 inst) (\<lambda>hw2. Inr (hw2\<lparr>inst_ptr := inst_ptr hw2 + 1\<rparr>))))"
proof (cases "length (genome hw) \<le> inst_ptr hw")
  case False
  then show ?thesis by (simp add: SingleProcess_def first_dispatched_def)
next
  case True
  show ?thesis
  proof (cases "ResetIP hw")
    case (Inl e)
    then show ?thesis using True by (simp add: SingleProcess_def)
  next
    case (Inr hw1)
    from ResetIP_changes[OF Inr] have "inst_ptr hw1 = 0" by auto
    then show ?thesis using True Inr by (simp add: SingleProcess_def first_dispatched_def)
  qed
qed

text \<open>What \<open>UpdateScope\<close> dispatches when it closes a loop, and when it returns from a function.\<close>

lemma UpdateScope_LOOP:
  assumes "scope_stack hw \<noteq> []"
    and "size_t_inc new_scope \<le> CurScope hw"
    and "CurScopeType hw = LOOP"
  shows "UpdateScope hw new_scope ty =
           ebind (ExitScope (hw\<lparr>inst_ptr := start_pos (last (scope_stack hw))\<rparr>)) (\<lambda>hw1.
             ebind (GetInst hw1 (start_pos (last (scope_stack hw)))) (\<lambda>inst.
               ebind (ProcessInst hw1 inst) (\<lambda>hw2. Inr (False, hw2))))"
proof (cases "ExitScope (hw\<lparr>inst_ptr := start_pos (last (scope_stack hw))\<rparr>)")
  case (Inl e)
  then show ?thesis
    using assms by (subst UpdateScope.simps) (simp add: Let_def)
next
  case (Inr hw1)
  from ExitScope_changes[OF Inr] have "inst_ptr hw1 = start_pos (last (scope_stack hw))"
    by auto
  then show ?thesis
    using assms Inr by (subst UpdateScope.simps) (simp add: Let_def)
qed

lemma UpdateScope_FUNCTION:
  assumes "scope_stack hw \<noteq> []"
    and "size_t_inc new_scope \<le> CurScope hw"
    and "CurScopeType hw = FUNCTION"
    and "call_stack hw \<noteq> []"
  shows "UpdateScope hw new_scope ty =
           ebind (if length (genome hw) \<le> last (call_stack hw)
                  then ResetIP (hw\<lparr>inst_ptr := last (call_stack hw)\<rparr>)
                  else ExitScope (hw\<lparr>inst_ptr := last (call_stack hw),
                                     call_stack := butlast (call_stack hw)\<rparr>)) (\<lambda>hw1.
             ebind (GetInst hw1 (if length (genome hw) \<le> last (call_stack hw) then 0
                                 else last (call_stack hw))) (\<lambda>inst.
               ebind (ProcessInst hw1 inst) (\<lambda>hw2. Inr (False, hw2))))"
proof (cases "length (genome hw) \<le> last (call_stack hw)")
  case True
  show ?thesis
  proof (cases "ResetIP (hw\<lparr>inst_ptr := last (call_stack hw)\<rparr>)")
    case (Inl e)
    then show ?thesis
      using assms True by (subst UpdateScope.simps) (simp add: Let_def)
  next
    case (Inr hw1)
    from ResetIP_changes[OF Inr] have "inst_ptr hw1 = 0" by auto
    then show ?thesis
      using assms True Inr by (subst UpdateScope.simps) (simp add: Let_def)
  qed
next
  case False
  show ?thesis
  proof (cases "ExitScope (hw\<lparr>inst_ptr := last (call_stack hw),
                              call_stack := butlast (call_stack hw)\<rparr>)")
    case (Inl e)
    then show ?thesis
      using assms False by (subst UpdateScope.simps) (simp add: Let_def)
  next
    case (Inr hw1)
    from ExitScope_changes[OF Inr] have "inst_ptr hw1 = last (call_stack hw)" by auto
    then show ?thesis
      using assms False Inr by (subst UpdateScope.simps) (simp add: Let_def)
  qed
qed

text \<open>
  What \<open>PredictNextInst\<close> returns. It is a function of the state only: it returns a
  position and no state. Let \<open>s\<close> be the depth of the scope that the instruction under the
  pointer opens (0 for none). When the current frame is neither a loop nor a function, and
  also when the pointer is inside the genome and \<open>s\<close> is 0, above \<open>CPU_SIZE\<close> or deeper
  than the current scope, \<open>PredictNextInst\<close> returns the position of the instruction that
  \<open>SingleProcess\<close> dispatches first. When the pointer is inside the genome, the current
  frame is a loop and \<open>s\<close> is not 0 and not deeper than that frame, it returns the start
  position of the frame, and when the current frame is a function, the return address on
  top of the call stack, or 0 when that address is past the end: in these two cases the
  position of the instruction that \<open>UpdateScope\<close> dispatches again during the step.
\<close>

lemma PredictNextInst_cases:
  assumes "scope_stack hw \<noteq> []"
    and "inst_ptr hw < length (genome hw) \<longrightarrow> InstScope hw (genome hw ! inst_ptr hw) = Inr s"
  shows "SingleProcess hw =
           ebind (if length (genome hw) \<le> inst_ptr hw then ResetIP hw else Inr hw) (\<lambda>hw1.
             ebind (GetInst hw1 (first_dispatched hw)) (\<lambda>inst.
               ebind (ProcessInst hw1 inst) (\<lambda>hw2. Inr (hw2\<lparr>inst_ptr := inst_ptr hw2 + 1\<rparr>))))
       \<and> (CurScopeType hw \<noteq> LOOP \<and> CurScopeType hw \<noteq> FUNCTION \<longrightarrow>
             PredictNextInst hw = Inr (first_dispatched hw))
       \<and> (inst_ptr hw < length (genome hw) \<and> (s = 0 \<or> CPU_SIZE < s \<or> CurScope hw < s) \<longrightarrow>
             PredictNextInst hw = Inr (first_dispatched hw))
       \<and> (inst_ptr hw < length (genome hw) \<and> 0 < s \<and> s \<le> CPU_SIZE \<and> s \<le> CurScope hw
            \<and> CurScopeType hw = LOOP \<longrightarrow>
             PredictNextInst hw = Inr (start_pos (last (scope_stack hw)))
           \<and> (\<forall>new_scope ty. size_t_inc new_scope = s \<longrightarrow>
                UpdateScope hw new_scope ty =
                  ebind (ExitScope (hw\<lparr>inst_ptr := start_pos (last (scope_stack hw))\<rparr>)) (\<lambda>hw1.
                    ebind (GetInst hw1 (start_pos (last (scope_stack hw)))) (\<lambda>inst.
                      ebind (ProcessInst hw1 inst) (\<lambda>hw2. Inr (False, hw2))))))
       \<and> (inst_ptr hw < length (genome hw) \<and> 0 < s \<and> s \<le> CPU_SIZE \<and> s \<le> CurScope hw
            \<and> CurScopeType hw = FUNCTION \<and> call_stack hw \<noteq> [] \<longrightarrow>
             PredictNextInst hw = Inr (if length (genome hw) \<le> last (call_stack hw) then 0
                                       else last (call_stack hw))
           \<and> (\<forall>new_scope ty. size_t_inc new_scope = s \<longrightarrow>
                UpdateScope hw new_scope ty =
                  ebind (if length (genome hw) \<le> last (call_stack hw)
                         then ResetIP (hw\<lparr>inst_ptr := last (call_stack hw)\<rparr>)
                         else ExitScope (hw\<lparr>inst_ptr := last (call_stack hw),
                                            call_stack := butlast (call_stack hw)\<rparr>)) (\<lambda>hw1.
                    ebind (GetInst hw1 (if length (genome hw) \<le> last (call_stack hw) then 0
                                        else last (call_stack hw))) (\<lambda>inst.
                      ebind (ProcessInst hw1 inst) (\<lambda>hw2. Inr (False, hw2))))))"
proof -
  have a: "PredictNextInst hw = Inr (first_dispatched hw)"
    if "CurScopeType hw \<noteq> LOOP \<and> CurScopeType hw \<noteq> FUNCTION"
  proof (cases "inst_ptr hw < length (genome hw)")
    case True
    then show ?thesis
      using that assms by (simp add: PredictNextInst_def first_dispatched_def CPU_SIZE_def)
  next
    case False
    then show ?thesis
      using that assms(1) by (simp add: PredictNextInst_def first_dispatched_def CPU_SIZE_def)
  qed
  have b: "PredictNextInst hw = Inr (first_dispatched hw)"
    if "inst_ptr hw < length (genome hw) \<and> (s = 0 \<or> CPU_SIZE < s \<or> CurScope hw < s)"
    using that assms by (auto simp add: PredictNextInst_def first_dispatched_def CPU_SIZE_def)
  have c: "PredictNextInst hw = Inr (start_pos (last (scope_stack hw)))"
    if "inst_ptr hw < length (genome hw) \<and> 0 < s \<and> s \<le> CPU_SIZE \<and> s \<le> CurScope hw
        \<and> CurScopeType hw = LOOP"
    using that assms by (simp add: PredictNextInst_def)
  have d: "PredictNextInst hw = Inr (if length (genome hw) \<le> last (call_stack hw) then 0
                                       else last (call_stack hw))"
    if "inst_ptr hw < length (genome hw) \<and> 0 < s \<and> s \<le> CPU_SIZE \<and> s \<le> CurScope hw
        \<and> CurScopeType hw = FUNCTION \<and> call_stack hw \<noteq> []"
    using that assms by (simp add: PredictNextInst_def)
  from SingleProcess_first_dispatched[of hw] a b c d
    UpdateScope_LOOP[OF assms(1)] UpdateScope_FUNCTION[OF assms(1)]
  show ?thesis
    by (intro conjI impI allI) simp_all
qed

text \<open>
  Claim C9. \<open>PredictNextInst\<close> does not always return the position of the instruction
  that the next step dispatches. Three steps on \<open>Inc 5; While 1 0; Inc 2\<close> lead to the
  state \<open>g9_end\<close>: the pointer is past the end of the genome and the machine is still in
  the loop, which nothing closes. There \<open>PredictNextInst\<close> answers 1, the start of the
  loop, because it looks at the kind of the current frame before it looks at the end of
  the genome. The next step resets the machine and dispatches the instruction at position
  0, \<open>Inc 5\<close>, and nothing else.
\<close>

theorem PredictNextInst_past_end_in_loop:
  "Process (loaded g9) 3 = Inr g9_end
   \<and> inst_ptr g9_end = 3 \<and> length (genome g9_end) = 3
   \<and> CurScopeType g9_end = LOOP
   \<and> PredictNextInst g9_end = Inr 1
   \<and> first_dispatched g9_end = 0
   \<and> SingleProcess g9_end
       = Inr ((loaded g9)\<lparr>inst_ptr := 1, regs := (regs (loaded g9))(5 := 7, 2 := 3)\<rparr>)"
  by (simp add: run_simps g9_def g9_end_def PredictNextInst_def first_dispatched_def fun_eq_iff)

text \<open>
  Where an instruction closes the loop it stands in, the answer is the start of the loop
  and not the closing instruction, which is the one dispatched first: on the closing
  \<open>Scope 0\<close> of the loop \<open>Countdown 2 0; Inc 1; Scope 0\<close> the answer is 0.
\<close>

lemma PredictNextInst_at_loop_close:
  "PredictNextInst (in_loop 1 1 2) = Inr 0 \<and> first_dispatched (in_loop 1 1 2) = 2"
  by (simp add: loaded_simps PredictNextInst_def first_dispatched_def in_loop_def gL_def
      InstScope_def catalog_simps arg_at_def size_t_inc_def CPU_SIZE_def CurScope_def
      CurScopeType_def)

text \<open>
  The jump back to the start of a loop is not foreseen when the closing instruction
  stands in a scope nested in the loop. Three steps on
  \<open>While 5 1; If 1 2; Inc 4; Scope 0; Inc 3\<close> lead to the state \<open>gR_in\<close>, inside the
  conditional with the pointer on \<open>Scope 0\<close>. The answer is 3, the position of
  \<open>Scope 0\<close>; the step leaves the conditional, closes the loop and dispatches the
  \<open>While\<close> at position 0 again.
\<close>

lemma PredictNextInst_nested_close:
  "Process (loaded gR) 3 = Inr gR_in
   \<and> PredictNextInst gR_in = Inr 3
   \<and> SingleProcess gR_in = Inr gR_back"
  by (simp add: run_simps gR_def gR_in_def gR_back_def PredictNextInst_def Inst_While.simps
      fun_eq_iff)

lemma gC_called_reachable: "Process (loaded gC) 3 = Inr gC_called"
  by (simp add: run_simps gC_def gC_in_def gC_called_def fun_eq_iff int_to_size_t_def)

lemma PredictNextInst_cases_example:
  "scope_stack (in_loop 1 1 1) \<noteq> [] \<and> scope_stack (in_loop 1 1 2) \<noteq> []
   \<and> scope_stack gC_called \<noteq> [] \<and> call_stack gC_called \<noteq> []
   \<and> CurScopeType ((loaded gC)\<lparr>inst_ptr := 5\<rparr>) = ROOT
   \<and> PredictNextInst ((loaded gC)\<lparr>inst_ptr := 5\<rparr>) = Inr 0
   \<and> InstScope (in_loop 1 1 1) (genome (in_loop 1 1 1) ! 1) = Inr 0
   \<and> PredictNextInst (in_loop 1 1 1) = Inr 1
   \<and> InstScope (in_loop 1 1 2) (genome (in_loop 1 1 2) ! 2) = Inr 1
   \<and> CurScopeType (in_loop 1 1 2) = LOOP
   \<and> PredictNextInst (in_loop 1 1 2) = Inr 0
   \<and> InstScope gC_called (genome gC_called ! 2) = Inr 1
   \<and> CurScopeType gC_called = FUNCTION
   \<and> PredictNextInst gC_called = Inr 4"
proof -
  let ?root = "(loaded gC)\<lparr>inst_ptr := 5\<rparr>"
  have r: "scope_stack ?root \<noteq> []"
    "inst_ptr ?root < length (genome ?root) \<longrightarrow> InstScope ?root (genome ?root ! inst_ptr ?root) = Inr 0"
    "CurScopeType ?root \<noteq> LOOP \<and> CurScopeType ?root \<noteq> FUNCTION"
    "CurScopeType ?root = ROOT" "first_dispatched ?root = 0"
    by (simp_all add: loaded_simps gC_def CurScopeType_def first_dispatched_def)
  from PredictNextInst_cases [OF r(1,2)] r(3,5)
  have 1: "PredictNextInst ?root = Inr 0" by simp
  let ?body = "in_loop 1 1 1"
  have b: "scope_stack ?body \<noteq> []"
    "inst_ptr ?body < length (genome ?body) \<longrightarrow> InstScope ?body (genome ?body ! inst_ptr ?body) = Inr 0"
    "inst_ptr ?body < length (genome ?body) \<and> ((0::nat) = 0 \<or> CPU_SIZE < 0 \<or> CurScope ?body < 0)"
    "first_dispatched ?body = 1"
    "InstScope ?body (genome ?body ! 1) = Inr 0"
    by (simp_all add: in_loop_def loaded_simps gL_def InstScope_def catalog_simps
        first_dispatched_def)
  from PredictNextInst_cases [OF b(1,2)] b(3,4)
  have 2: "PredictNextInst ?body = Inr 1" by simp
  let ?close = "in_loop 1 1 2"
  have c: "scope_stack ?close \<noteq> []"
    "inst_ptr ?close < length (genome ?close)
       \<longrightarrow> InstScope ?close (genome ?close ! inst_ptr ?close) = Inr 1"
    "inst_ptr ?close < length (genome ?close) \<and> (0::nat) < 1 \<and> 1 \<le> CPU_SIZE \<and> 1 \<le> CurScope ?close
       \<and> CurScopeType ?close = LOOP"
    "start_pos (last (scope_stack ?close)) = 0"
    "InstScope ?close (genome ?close ! 2) = Inr 1" "CurScopeType ?close = LOOP"
    by (simp_all add: in_loop_def loaded_simps gL_def InstScope_def catalog_simps arg_at_def
        size_t_inc_def CPU_SIZE_def CurScope_def CurScopeType_def)
  from PredictNextInst_cases [OF c(1,2)] c(3,4)
  have 3: "PredictNextInst ?close = Inr 0" by simp
  have f: "scope_stack gC_called \<noteq> []"
    "inst_ptr gC_called < length (genome gC_called)
       \<longrightarrow> InstScope gC_called (genome gC_called ! inst_ptr gC_called) = Inr 1"
    "inst_ptr gC_called < length (genome gC_called) \<and> (0::nat) < 1 \<and> 1 \<le> CPU_SIZE
       \<and> 1 \<le> CurScope gC_called \<and> CurScopeType gC_called = FUNCTION \<and> call_stack gC_called \<noteq> []"
    "(if length (genome gC_called) \<le> last (call_stack gC_called) then 0
      else last (call_stack gC_called)) = 4"
    "InstScope gC_called (genome gC_called ! 2) = Inr 1" "CurScopeType gC_called = FUNCTION"
    "call_stack gC_called \<noteq> []"
    by (simp_all add: gC_called_def gC_in_def loaded_simps gC_def InstScope_def catalog_simps
        arg_at_def size_t_inc_def CPU_SIZE_def CurScope_def CurScopeType_def)
  from PredictNextInst_cases [OF f(1,2)] f(3,4)
  have 4: "PredictNextInst gC_called = Inr 4" by simp
  show ?thesis
    using r(4) 1 b(1,5) 2 c(1,5,6) 3 f(1,5,6,7) 4 by simp
qed

subsection \<open>The bound on the depth of the scope stack\<close>

text \<open>
  A frame of depth \<open>CPU_SIZE + 1\<close> is pushed only when \<open>UpdateScope\<close> tries again after
  leaving a basic scope, with the depth it had already incremented: then the stack held at
  most \<open>CPU_SIZE\<close> frames before the exit. A stack of well-ordered depths up to \<open>CPU_SIZE\<close>
  has at most \<open>CPU_SIZE + 1\<close> frames.
\<close>

lemma stays_bounded_same:
  "depth_ok hw \<Longrightarrow> scope_stack hw' = scope_stack hw \<Longrightarrow> genome hw' = genome hw
   \<Longrightarrow> stays_bounded hw hw'"
  by (simp add: stays_bounded_def depth_ok_def CurScope_def)

lemma stays_bounded_trans:
  "stays_bounded hw hw1 \<Longrightarrow> stays_bounded hw1 hw2 \<Longrightarrow> stays_bounded hw hw2"
  by (simp add: stays_bounded_def)

lemma bounded_step:
  "bounded hw \<Longrightarrow> keeps_root hw hw' \<Longrightarrow> stays_bounded hw hw' \<Longrightarrow> bounded hw'"
  by (simp add: bounded_def keeps_root_def stays_bounded_def small_scopes_def)

lemma sorted_length_le_last:
  "sorted_wrt (<) (xs :: nat list) \<Longrightarrow> xs \<noteq> [] \<Longrightarrow> length xs \<le> last xs + 1"
proof (induction xs rule: rev_induct)
  case Nil
  then show ?case by simp
next
  case (snoc y ys)
  show ?case
  proof (cases "ys = []")
    case True
    then show ?thesis by simp
  next
    case False
    then have "length ys \<le> last ys + 1" and "last ys < y"
      using snoc by (auto simp: sorted_wrt_append)
    then show ?thesis by simp
  qed
qed

lemma bounded_length:
  assumes "bounded hw"
  shows "length (scope_stack hw) \<le> CPU_SIZE + 1"
proof -
  have ne: "scope_stack hw \<noteq> []"
    and so: "sorted_wrt (<) (map ScopeInfo.scope (scope_stack hw))"
    and d: "depth_ok hw"
    using assms by (simp_all add: bounded_def stack_ok_def)
  have "length (map ScopeInfo.scope (scope_stack hw)) \<le> last (map ScopeInfo.scope (scope_stack hw)) + 1"
    using so ne by (intro sorted_length_le_last) simp_all
  then have "length (scope_stack hw) \<le> CurScope hw + 1"
    using ne by (simp add: CurScope_def last_map)
  then show ?thesis using d by (auto simp: depth_ok_def)
qed

lemma pop_depth:
  assumes "stack_ok hw" "depth_ok hw" "1 < length (scope_stack hw)"
    and "scope_stack hw' = butlast (scope_stack hw)"
  shows "CurScope hw' < CurScope hw"
proof -
  obtain ys y where ys: "scope_stack hw = ys @ [y]"
    using assms(3) by (cases "scope_stack hw" rule: rev_cases) auto
  obtain zs x where "ys = zs @ [x]"
    using assms(3) ys by (cases ys rule: rev_cases) auto
  with ys have xs: "scope_stack hw = zs @ [x, y]" by simp
  show ?thesis
    using assms(1,4) unfolding stack_ok_def xs CurScope_def
    by (simp add: sorted_wrt_append butlast_append)
qed

lemma ExitScope_depth:
  assumes "stack_ok hw" "depth_ok hw" "ExitScope hw = Inr hw'"
  shows "stays_bounded hw hw'" "CurScope hw' \<le> CPU_SIZE" "length (scope_stack hw') < CPU_SIZE"
proof -
  have l: "1 < length (scope_stack hw)" "length (scope_stack hw) \<le> CPU_SIZE"
    using assms(3) by (auto simp: ExitScope_def split: if_splits)
  have b: "scope_stack hw' = butlast (scope_stack hw)" using assms(3) by (rule ExitScope_scope_stack)
  have g: "genome hw' = genome hw" using ExitScope_changes[OF assms(3)] by auto
  have c: "CurScope hw' < CurScope hw" using pop_depth[OF assms(1,2) l(1) b] .
  show "CurScope hw' \<le> CPU_SIZE" using c assms(2) by (simp add: depth_ok_def)
  then show "stays_bounded hw hw'" using g by (simp add: stays_bounded_def depth_ok_def)
  show "length (scope_stack hw') < CPU_SIZE" using l b by simp
qed

lemma simple_genome:
  "Inst_Inc hw args = Inr hw' \<Longrightarrow> genome hw' = genome hw"
  "Inst_Dec hw args = Inr hw' \<Longrightarrow> genome hw' = genome hw"
  "Inst_Not hw args = Inr hw' \<Longrightarrow> genome hw' = genome hw"
  "Inst_SetReg hw args = Inr hw' \<Longrightarrow> genome hw' = genome hw"
  "Inst_Add hw args = Inr hw' \<Longrightarrow> genome hw' = genome hw"
  "Inst_Sub hw args = Inr hw' \<Longrightarrow> genome hw' = genome hw"
  "Inst_Mult hw args = Inr hw' \<Longrightarrow> genome hw' = genome hw"
  "Inst_Div hw args = Inr hw' \<Longrightarrow> genome hw' = genome hw"
  "Inst_Mod hw args = Inr hw' \<Longrightarrow> genome hw' = genome hw"
  "Inst_TestEqu hw args = Inr hw' \<Longrightarrow> genome hw' = genome hw"
  "Inst_TestNEqu hw args = Inr hw' \<Longrightarrow> genome hw' = genome hw"
  "Inst_TestLess hw args = Inr hw' \<Longrightarrow> genome hw' = genome hw"
  "Inst_Input hw args = Inr hw' \<Longrightarrow> genome hw' = genome hw"
  "Inst_Output hw args = Inr hw' \<Longrightarrow> genome hw' = genome hw"
  "Inst_CopyVal hw args = Inr hw' \<Longrightarrow> genome hw' = genome hw"
  "Inst_ScopeReg hw args = Inr hw' \<Longrightarrow> genome hw' = genome hw"
  by (auto simp: Inst_Inc_def Inst_Dec_def Inst_Not_def Inst_SetReg_def Inst_Add_def Inst_Sub_def
      Inst_Mult_def Inst_Div_def Inst_Mod_def Inst_TestEqu_def Inst_TestNEqu_def Inst_TestLess_def
      Inst_Input_def Inst_Output_def Inst_CopyVal_def Inst_ScopeReg_def
      reg_read_def reg_write_def split: sum.splits if_splits)

lemma memory_genome:
  "Inst_SetMem hw args = Inr hw' \<Longrightarrow> genome hw' = genome hw"
  "Inst_GetMem hw args = Inr hw' \<Longrightarrow> genome hw' = genome hw"
  "Inst_CopyMem hw args = Inr hw' \<Longrightarrow> genome hw' = genome hw"
  "Inst_ShiftMem hw args = Inr hw' \<Longrightarrow> genome hw' = genome hw"
  "Inst_SetBoard hw args = Inr hw' \<Longrightarrow> genome hw' = genome hw"
  "Inst_EndTurn hw args = Inr hw' \<Longrightarrow> genome hw' = genome hw"
  "Inst_GetSquareCurr hw args = Inr hw' \<Longrightarrow> genome hw' = genome hw"
  by (auto simp: Inst_SetMem_def Inst_GetMem_def Inst_CopyMem_def Inst_ShiftMem_def
      Inst_SetBoard_def Inst_EndTurn_def Inst_GetSquareCurr_def SetMem_def CopyMem_def
      ShiftMem_def SetBoard_def EndTurn_def SetTrait_def Let_def
      reg_read_def reg_write_def split: sum.splits if_splits)

lemma board_genome:
  "Inst_GetValidAbove hw args = Inr hw' \<Longrightarrow> genome hw' = genome hw"
  "Inst_GetValidBelow hw args = Inr hw' \<Longrightarrow> genome hw' = genome hw"
  "Inst_GetValidLeft hw args = Inr hw' \<Longrightarrow> genome hw' = genome hw"
  "Inst_GetValidRight hw args = Inr hw' \<Longrightarrow> genome hw' = genome hw"
  "Inst_GetValidUL hw args = Inr hw' \<Longrightarrow> genome hw' = genome hw"
  "Inst_GetValidUR hw args = Inr hw' \<Longrightarrow> genome hw' = genome hw"
  "Inst_GetValidLL hw args = Inr hw' \<Longrightarrow> genome hw' = genome hw"
  "Inst_GetValidLR hw args = Inr hw' \<Longrightarrow> genome hw' = genome hw"
  by (auto simp: Inst_GetValidAbove_def Inst_GetValidBelow_def Inst_GetValidLeft_def
      Inst_GetValidRight_def Inst_GetValidUL_def Inst_GetValidUR_def Inst_GetValidLL_def
      Inst_GetValidLR_def reg_read_def reg_write_def split: sum.splits if_splits)

lemma ResetIP_exit_depth:
  "stack_ok hw \<Longrightarrow> depth_ok hw \<Longrightarrow> ResetIP_exit hw = Inr hw' \<Longrightarrow> stays_bounded hw hw'"
proof (induction hw rule: ResetIP_exit.induct)
  case (1 hw)
  show ?case
  proof (cases "length (scope_stack hw) > 1")
    case True
    then obtain hw1 where e: "ExitScope hw = Inr hw1" and r: "ResetIP_exit hw1 = Inr hw'"
      using "1.prems"(3) by (subst (asm) ResetIP_exit.simps) (auto split: sum.splits)
    have k: "stays_bounded hw hw1" using ExitScope_depth(1)[OF "1.prems"(1,2) e] .
    have "stack_ok hw1" using ExitScope_keeps[OF "1.prems"(1) e] by (rule keeps_root_ok)
    moreover have "depth_ok hw1" using k by (simp add: stays_bounded_def)
    ultimately have "stays_bounded hw1 hw'" using "1.IH"[OF True e] r by blast
    with k show ?thesis by (rule stays_bounded_trans)
  next
    case False
    then have "hw' = hw" using "1.prems"(3) by (subst (asm) ResetIP_exit.simps) auto
    then show ?thesis using "1.prems"(2) by (simp add: stays_bounded_same)
  qed
qed

lemma ResetIP_depth:
  assumes "stack_ok hw" "depth_ok hw" "ResetIP hw = Inr hw'"
  shows "stays_bounded hw hw'"
proof -
  obtain hw1 hw2 where a: "ResetIP_exit (hw\<lparr>inst_ptr := 0\<rparr>) = Inr hw1"
    and b: "ResetIP_restore hw1 = Inr hw2" and c: "hw' = hw2\<lparr>call_stack := []\<rparr>"
    using assms(3) by (auto simp: ResetIP_def split: sum.splits)
  have "stack_ok (hw\<lparr>inst_ptr := 0\<rparr>)" "depth_ok (hw\<lparr>inst_ptr := 0\<rparr>)"
    using assms(1,2) by (simp_all add: stack_ok_def depth_ok_def CurScope_def)
  from ResetIP_exit_depth[OF this a] have "depth_ok hw1" by (simp add: stays_bounded_def)
  moreover have "scope_stack hw' = scope_stack hw1"
    using ResetIP_restore_scope_stack[OF b] c by simp
  moreover have "genome hw' = genome hw" using ResetIP_changes[OF assms(3)] by auto
  ultimately show ?thesis by (simp add: stays_bounded_def depth_ok_def CurScope_def)
qed

lemma BypassScope_scan_genome:
  "BypassScope_scan hw sc = Inr hw' \<Longrightarrow> genome hw' = genome hw"
proof (induction hw sc rule: BypassScope_scan.induct)
  case (1 hw sc)
  then show ?case
    by (subst (asm) (2) BypassScope_scan.simps) (auto simp: Let_def split: if_splits sum.splits)
qed

lemma BypassScope_depth:
  assumes "stack_ok hw" "depth_ok hw" "BypassScope hw sc = Inr hw'"
  shows "stays_bounded hw hw'"
proof (cases "CurScope hw < size_t_inc sc")
  case True
  then have "hw' = hw" using assms by (auto simp: BypassScope_def Let_def stack_ok_def)
  then show ?thesis using assms(2) by (simp add: stays_bounded_same)
next
  case False
  then obtain hw1 where e: "ExitScope hw = Inr hw1"
    and s: "BypassScope_scan hw1 (size_t_inc sc) = Inr hw'"
    using assms by (auto simp: BypassScope_def Let_def stack_ok_def split: sum.splits)
  have "stays_bounded hw hw1" using ExitScope_depth(1)[OF assms(1,2) e] .
  then show ?thesis
    using BypassScope_scan_scope_stack[OF s] BypassScope_scan_genome[OF s]
    by (simp add: stays_bounded_def depth_ok_def CurScope_def)
qed

lemma small_scopes_nth:
  "small_scopes hw \<Longrightarrow> GetInst hw' p = Inr i \<Longrightarrow> genome hw' = genome hw
   \<Longrightarrow> a0 (inst_args i) < CPU_SIZE \<and> a1 (inst_args i) < CPU_SIZE"
  by (auto simp: small_scopes_def GetInst_def list_all_length split: if_splits)

text \<open>
  \<open>UpdateScope\<close> is called with a register index, or on its second try with \<open>CPU_SIZE\<close>
  on a stack that the exit has left with a top frame of depth at most \<open>CPU_SIZE\<close> and
  fewer than \<open>CPU_SIZE\<close> frames.
\<close>

lemma dispatch_bounded:
  "bounded hw \<and> (n < CPU_SIZE
       \<or> n = CPU_SIZE \<and> CurScope hw \<le> CPU_SIZE \<and> length (scope_stack hw) < CPU_SIZE)
     \<longrightarrow> (\<forall>b hw'. UpdateScope hw n ty = Inr (b, hw') \<longrightarrow> stays_bounded hw hw')"
  "bounded hw2 \<and> a0 (inst_args inst) < CPU_SIZE \<and> a1 (inst_args inst) < CPU_SIZE
     \<longrightarrow> (\<forall>hw'. ProcessInst hw2 inst = Inr hw' \<longrightarrow> stays_bounded hw2 hw')"
  "bounded hw3 \<and> a0 args3 < CPU_SIZE \<and> a1 args3 < CPU_SIZE
     \<longrightarrow> (\<forall>hw'. Inst_If hw3 args3 = Inr hw' \<longrightarrow> stays_bounded hw3 hw')"
  "bounded hw4 \<and> a0 args4 < CPU_SIZE \<and> a1 args4 < CPU_SIZE
     \<longrightarrow> (\<forall>hw'. Inst_While hw4 args4 = Inr hw' \<longrightarrow> stays_bounded hw4 hw')"
  "bounded hw5 \<and> a0 args5 < CPU_SIZE \<and> a1 args5 < CPU_SIZE
     \<longrightarrow> (\<forall>hw'. Inst_Countdown hw5 args5 = Inr hw' \<longrightarrow> stays_bounded hw5 hw')"
  "bounded hw6 \<and> a0 args6 < CPU_SIZE \<and> a1 args6 < CPU_SIZE
     \<longrightarrow> (\<forall>hw'. Inst_Scope hw6 args6 = Inr hw' \<longrightarrow> stays_bounded hw6 hw')"
  "bounded hw7 \<and> a0 args7 < CPU_SIZE \<and> a1 args7 < CPU_SIZE
     \<longrightarrow> (\<forall>hw'. Inst_Define hw7 args7 = Inr hw' \<longrightarrow> stays_bounded hw7 hw')"
  "bounded hw8 \<and> a0 args8 < CPU_SIZE \<and> a1 args8 < CPU_SIZE
     \<longrightarrow> (\<forall>hw'. Inst_Call hw8 args8 = Inr hw' \<longrightarrow> stays_bounded hw8 hw')"
proof (induct hw n ty and hw2 inst and hw3 args3 and hw4 args4 and hw5 args5 and hw6 args6
    and hw7 args7 and hw8 args8
    rule: UpdateScope_ProcessInst_Inst_If_Inst_While_Inst_Countdown_Inst_Scope_Inst_Define_Inst_Call.induct)
  case (1 hw new_scope0 ty)
  show ?case
  proof (intro impI allI)
    fix b hw'
    assume pre: "bounded hw \<and> (new_scope0 < CPU_SIZE
        \<or> new_scope0 = CPU_SIZE \<and> CurScope hw \<le> CPU_SIZE \<and> length (scope_stack hw) < CPU_SIZE)"
      and u: "UpdateScope hw new_scope0 ty = Inr (b, hw')"
    have ok: "stack_ok hw" and d: "depth_ok hw" and sm: "small_scopes hw"
      using pre by (simp_all add: bounded_def)
    have ne: "scope_stack hw \<noteq> []" using ok by (simp add: stack_ok_def)
    have inc: "size_t_inc new_scope0 = new_scope0 + 1"
      using pre by (auto simp: size_t_inc_def CPU_SIZE_def)
    consider (push) "CurScope hw < size_t_inc new_scope0"
      | (loop) "\<not> CurScope hw < size_t_inc new_scope0" "CurScopeType hw = LOOP"
      | (func) "\<not> CurScope hw < size_t_inc new_scope0" "CurScopeType hw \<noteq> LOOP"
          "CurScopeType hw = FUNCTION"
      | (basic) "\<not> CurScope hw < size_t_inc new_scope0" "CurScopeType hw \<noteq> LOOP"
          "CurScopeType hw \<noteq> FUNCTION"
      by blast
    then show "stays_bounded hw hw'"
    proof cases
      case push
      then have h: "hw' = hw\<lparr>scope_stack := scope_stack hw @
          [\<lparr>ScopeInfo.scope = size_t_inc new_scope0, type = ty, start_pos = inst_ptr hw\<rparr>]\<rparr>"
        using u ne by (subst (asm) UpdateScope.simps) (auto simp: Let_def)
      show ?thesis
        using pre unfolding h inc stays_bounded_def depth_ok_def CurScope_def
        by auto
    next
      case loop
      let ?h = "hw\<lparr>inst_ptr := start_pos (last (scope_stack hw))\<rparr>"
      obtain hw1 i where e: "ExitScope ?h = Inr hw1" and g: "GetInst hw1 (inst_ptr hw1) = Inr i"
        and p: "ProcessInst hw1 i = Inr hw'"
        using u ne loop by (subst (asm) UpdateScope.simps) (auto simp: Let_def split: sum.splits)
      have oh: "stack_ok ?h" "depth_ok ?h"
        using ok d by (simp_all add: stack_ok_def depth_ok_def CurScope_def)
      from ExitScope_depth(1)[OF oh e] have k: "stays_bounded hw hw1"
        by (simp add: stays_bounded_def)
      from ExitScope_keeps[OF oh(1) e] have "keeps_root hw hw1" by (simp add: keeps_root_def)
      with pre k have b1: "bounded hw1" by (auto intro: bounded_step)
      have "a0 (inst_args i) < CPU_SIZE \<and> a1 (inst_args i) < CPU_SIZE"
        using small_scopes_nth[OF sm g] k by (simp add: stays_bounded_def)
      then have "stays_bounded hw1 hw'"
        using "1.hyps"(1)[OF ne refl refl loop(1) loop(2) e g] b1 p by blast
      with k show ?thesis by (rule stays_bounded_trans)
    next
      case func
      let ?r = "if length (genome hw) \<le> last (call_stack hw)
            then ResetIP (hw\<lparr>inst_ptr := last (call_stack hw)\<rparr>)
            else ExitScope (hw\<lparr>inst_ptr := last (call_stack hw),
                               call_stack := butlast (call_stack hw)\<rparr>)"
      have cs: "call_stack hw \<noteq> []"
        using u ne func by (subst (asm) UpdateScope.simps) (auto simp: Let_def split: if_splits)
      obtain hw1 i where e: "?r = Inr hw1" and g: "GetInst hw1 (inst_ptr hw1) = Inr i"
        and p: "ProcessInst hw1 i = Inr hw'"
        using u ne func cs
        by (subst (asm) UpdateScope.simps) (auto simp: Let_def split: sum.splits)
      have k: "stays_bounded hw hw1 \<and> keeps_root hw hw1"
      proof (cases "length (genome hw) \<le> last (call_stack hw)")
        case True
        let ?h = "hw\<lparr>inst_ptr := last (call_stack hw)\<rparr>"
        have oh: "stack_ok ?h" "depth_ok ?h"
          using ok d by (simp_all add: stack_ok_def depth_ok_def CurScope_def)
        from e True have r: "ResetIP ?h = Inr hw1" by simp
        from ResetIP_depth[OF oh r] ResetIP_keeps[OF oh(1) r] show ?thesis
          by (simp add: keeps_root_def stays_bounded_def)
      next
        case False
        let ?h = "hw\<lparr>inst_ptr := last (call_stack hw), call_stack := butlast (call_stack hw)\<rparr>"
        have oh: "stack_ok ?h" "depth_ok ?h"
          using ok d by (simp_all add: stack_ok_def depth_ok_def CurScope_def)
        from e False have r: "ExitScope ?h = Inr hw1" by simp
        from ExitScope_depth(1)[OF oh r] ExitScope_keeps[OF oh(1) r] show ?thesis
          by (simp add: keeps_root_def stays_bounded_def)
      qed
      with pre have b1: "bounded hw1" by (auto intro: bounded_step)
      have "a0 (inst_args i) < CPU_SIZE \<and> a1 (inst_args i) < CPU_SIZE"
        using small_scopes_nth[OF sm g] k by (simp add: stays_bounded_def)
      then have "stays_bounded hw1 hw'"
        using "1.hyps"(2)[OF ne refl refl func(1) func(2) func(3) cs e g] b1 p by blast
      with k show ?thesis by (blast intro: stays_bounded_trans)
    next
      case basic
      obtain hw1 where e: "ExitScope hw = Inr hw1"
        and r: "UpdateScope hw1 (size_t_inc new_scope0) ty = Inr (b, hw')"
        using u ne basic by (subst (asm) UpdateScope.simps) (auto simp: Let_def split: sum.splits)
      have k: "stays_bounded hw hw1" using ExitScope_depth(1)[OF ok d e] .
      have b1: "bounded hw1" using pre k ExitScope_keeps[OF ok e] by (auto intro: bounded_step)
      have lt: "new_scope0 < CPU_SIZE" using pre basic(1) inc by auto
      have "size_t_inc new_scope0 < CPU_SIZE
          \<or> size_t_inc new_scope0 = CPU_SIZE \<and> CurScope hw1 \<le> CPU_SIZE
             \<and> length (scope_stack hw1) < CPU_SIZE"
        using lt inc ExitScope_depth(2,3)[OF ok d e] by auto
      then have "stays_bounded hw1 hw'"
        using "1.hyps"(3)[OF ne refl refl basic(1) basic(2) basic(3) e] b1 r by blast
      with k show ?thesis by (rule stays_bounded_trans)
    qed
  qed
next
  case (2 hw inst)
  show ?case
  proof (intro impI allI)
    fix hw'
    assume pre: "bounded hw \<and> a0 (inst_args inst) < CPU_SIZE \<and> a1 (inst_args inst) < CPU_SIZE"
      and p: "ProcessInst hw inst = Inr hw'"
    have ok: "stack_ok hw" and d: "depth_ok hw" using pre by (simp_all add: bounded_def)
    obtain f where f: "GetFunCall (inst_lib hw) (inst_id inst) = Inr f"
      using p by (subst (asm) ProcessInst.simps) (auto split: sum.splits)
    note same = stays_bounded_same[OF d]
    show "stays_bounded hw hw'"
      using p f "2.hyps" pre
      by (subst (asm) ProcessInst.simps, cases f)
         (auto intro: same simple_scope_stack memory_scope_stack board_scope_stack
             simple_genome memory_genome board_genome BypassScope_depth[OF ok d]
             simp: Inst_Break_def)
  qed
next
  case (3 hw args)
  show ?case
  proof (intro impI allI)
    fix hw'
    assume pre: "bounded hw \<and> a0 args < CPU_SIZE \<and> a1 args < CPU_SIZE"
      and p: "Inst_If hw args = Inr hw'"
    obtain e hw1 where u: "UpdateScope hw (a1 args) BASIC = Inr (e, hw1)"
      using p by (auto split: sum.splits)
    have k: "stays_bounded hw hw1" using "3.hyps" pre u by blast
    have ok1: "stack_ok hw1" using dispatch_keeps(1) pre u unfolding bounded_def keeps_root_def by blast
    have d1: "depth_ok hw1" using k by (simp add: stays_bounded_def)
    have "stays_bounded hw1 hw'"
      using p u ok1 d1
      by (auto simp: reg_read_def reg_write_def stays_bounded_same dest: BypassScope_depth
          split: if_splits)
    with k show "stays_bounded hw hw'" by (rule stays_bounded_trans)
  qed
next
  case (4 hw args)
  show ?case
  proof (intro impI allI)
    fix hw'
    assume pre: "bounded hw \<and> a0 args < CPU_SIZE \<and> a1 args < CPU_SIZE"
      and p: "Inst_While hw args = Inr hw'"
    obtain e hw1 where u: "UpdateScope hw (a1 args) LOOP = Inr (e, hw1)"
      using p by (auto split: sum.splits)
    have k: "stays_bounded hw hw1" using "4.hyps" pre u by blast
    have ok1: "stack_ok hw1" using dispatch_keeps(1) pre u unfolding bounded_def keeps_root_def by blast
    have d1: "depth_ok hw1" using k by (simp add: stays_bounded_def)
    have "stays_bounded hw1 hw'"
      using p u ok1 d1
      by (auto simp: reg_read_def reg_write_def stays_bounded_same dest: BypassScope_depth
          split: if_splits)
    with k show "stays_bounded hw hw'" by (rule stays_bounded_trans)
  qed
next
  case (5 hw args)
  show ?case
  proof (intro impI allI)
    fix hw'
    assume pre: "bounded hw \<and> a0 args < CPU_SIZE \<and> a1 args < CPU_SIZE"
      and p: "Inst_Countdown hw args = Inr hw'"
    obtain e hw1 where u: "UpdateScope hw (a1 args) LOOP = Inr (e, hw1)"
      using p by (auto split: sum.splits)
    have k: "stays_bounded hw hw1" using "5.hyps" pre u by blast
    have ok1: "stack_ok hw1" using dispatch_keeps(1) pre u unfolding bounded_def keeps_root_def by blast
    have d1: "depth_ok hw1" using k by (simp add: stays_bounded_def)
    have "stays_bounded hw1 hw'"
      using p u ok1 d1
      by (auto simp: reg_read_def reg_write_def stays_bounded_same dest: BypassScope_depth
          split: if_splits)
    with k show "stays_bounded hw hw'" by (rule stays_bounded_trans)
  qed
next
  case (6 hw args)
  show ?case
  proof (intro impI allI)
    fix hw'
    assume pre: "bounded hw \<and> a0 args < CPU_SIZE \<and> a1 args < CPU_SIZE"
      and p: "Inst_Scope hw args = Inr hw'"
    then obtain e where u: "UpdateScope hw (a0 args) BASIC = Inr (e, hw')"
      by (auto split: sum.splits)
    show "stays_bounded hw hw'" using "6.hyps" pre u by blast
  qed
next
  case (7 hw args)
  show ?case
  proof (intro impI allI)
    fix hw'
    assume pre: "bounded hw \<and> a0 args < CPU_SIZE \<and> a1 args < CPU_SIZE"
      and p: "Inst_Define hw args = Inr hw'"
    obtain e hw1 where u: "UpdateScope hw (a1 args) BASIC = Inr (e, hw1)"
      using p by (auto split: sum.splits)
    have k: "stays_bounded hw hw1" using "7.hyps" pre u by blast
    have ok1: "stack_ok hw1"
      using dispatch_keeps(1) pre u unfolding bounded_def keeps_root_def by blast
    have d1: "depth_ok hw1" using k by (simp add: stays_bounded_def)
    let ?h = "hw1\<lparr>fun_starts := (fun_starts hw1)(a0 args := size_t_to_int (inst_ptr hw1))\<rparr>"
    have s: "stack_ok ?h" "depth_ok ?h"
      using ok1 d1 by (simp_all add: stack_ok_def depth_ok_def CurScope_def)
    have "e = False \<and> hw' = hw1 \<or> BypassScope ?h (a1 args) = Inr hw'"
      using p u by (auto split: if_splits)
    then have "stays_bounded hw1 hw'"
    proof
      assume "e = False \<and> hw' = hw1"
      then show ?thesis using d1 by (simp add: stays_bounded_same)
    next
      assume "BypassScope ?h (a1 args) = Inr hw'"
      from BypassScope_depth[OF s this] show ?thesis by (simp add: stays_bounded_def)
    qed
    with k show "stays_bounded hw hw'" by (rule stays_bounded_trans)
  qed
next
  case (8 hw args)
  show ?case
  proof (intro impI allI)
    fix hw'
    assume pre: "bounded hw \<and> a0 args < CPU_SIZE \<and> a1 args < CPU_SIZE"
      and p: "Inst_Call hw args = Inr hw'"
    have d: "depth_ok hw" and sm: "small_scopes hw" using pre by (simp_all add: bounded_def)
    let ?d = "int_to_size_t (fun_starts hw (a0 args))"
    have a: "a0 args < CPU_SIZE" using pre by simp
    show "stays_bounded hw hw'"
    proof (cases "length (genome hw) \<le> ?d")
      case True
      then have "hw' = hw" using p a by (simp add: Let_def)
      then show ?thesis using d by (simp add: stays_bounded_same)
    next
      case False
      then obtain st where st: "GetScopeType (inst_lib hw) (inst_id (genome hw ! ?d)) = Inr st"
        using p a by (auto simp: Let_def split: sum.splits)
      show ?thesis
      proof (cases "st = FUNCTION")
        case False
        then have "hw' = hw" using p a st \<open>\<not> length (genome hw) \<le> ?d\<close> by (simp add: Let_def)
        then show ?thesis using d by (simp add: stays_bounded_same)
      next
        case True
        obtain e hw1 where u: "UpdateScope hw (a1 (inst_args (genome hw ! ?d))) FUNCTION = Inr (e, hw1)"
          and h: "scope_stack hw' = scope_stack hw1" "genome hw' = genome hw1"
          using p a st True \<open>\<not> length (genome hw) \<le> ?d\<close>
          by (auto simp: Let_def split: sum.splits if_splits)
        have "a1 (inst_args (genome hw ! ?d)) < CPU_SIZE"
          using sm \<open>\<not> length (genome hw) \<le> ?d\<close> by (simp add: small_scopes_def list_all_length)
        then have "stays_bounded hw hw1"
          using "8.hyps"[OF a refl \<open>\<not> length (genome hw) \<le> ?d\<close> st _ refl] True pre u by blast
        then show ?thesis using h by (simp add: stays_bounded_def depth_ok_def CurScope_def)
      qed
    qed
  qed
qed

lemma SingleProcess_bounded:
  assumes "bounded hw" "SingleProcess hw = Inr hw'"
  shows "bounded hw'"
proof -
  have ok: "stack_ok hw" and d: "depth_ok hw" and sm: "small_scopes hw"
    using assms(1) by (simp_all add: bounded_def)
  let ?r = "if length (genome hw) \<le> inst_ptr hw then ResetIP hw else Inr hw"
  obtain hw1 i hw2 where r: "?r = Inr hw1" and g: "GetInst hw1 (inst_ptr hw1) = Inr i"
    and p: "ProcessInst hw1 i = Inr hw2" and h: "hw' = hw2\<lparr>inst_ptr := inst_ptr hw2 + 1\<rparr>"
    using assms(2) by (auto simp: SingleProcess_def split: sum.splits)
  have k: "keeps_root hw hw1" "stays_bounded hw hw1"
    using r ok d
    by (auto simp: keeps_root_same stays_bounded_same dest: ResetIP_keeps ResetIP_depth
        split: if_splits)
  have b1: "bounded hw1" using assms(1) k by (rule bounded_step)
  have "a0 (inst_args i) < CPU_SIZE \<and> a1 (inst_args i) < CPU_SIZE"
    using small_scopes_nth[OF sm g] k(2) by (simp add: stays_bounded_def)
  then have "stays_bounded hw1 hw2" using dispatch_bounded(2) b1 p by blast
  moreover have "keeps_root hw1 hw2"
    using dispatch_keeps(2) b1 p unfolding bounded_def by blast
  ultimately have "bounded hw2" using b1 by (blast intro: bounded_step)
  then show ?thesis
    unfolding h by (simp add: bounded_def stack_ok_def depth_ok_def small_scopes_def CurScope_def)
qed

lemma Process_bounded:
  "bounded hw \<Longrightarrow> Process hw n = Inr hw' \<Longrightarrow> bounded hw'"
proof (induction n arbitrary: hw)
  case 0
  then show ?case by simp
next
  case (Suc n)
  show ?case
  proof (cases "GetTrait hw 100 = Inr 1")
    case True
    then have "hw' = hw" using Suc.prems(2) by simp
    then show ?thesis using Suc.prems(1) by simp
  next
    case False
    then obtain hw1 where s: "SingleProcess hw = Inr hw1" and r: "Process hw1 n = Inr hw'"
      using Suc.prems(2) by (auto split: sum.splits if_splits)
    show ?thesis using Suc.IH[OF SingleProcess_bounded[OF Suc.prems(1) s] r] .
  qed
qed

text \<open>
  For a genome whose scope arguments are register indices the scope stack never holds more
  than \<open>CPU_SIZE + 1\<close> frames: the machine as constructed is bounded, a step and a run
  of steps in which no assertion fails keep it bounded, and a bounded machine has at most
  \<open>CPU_SIZE + 1\<close> frames. The genome \<open>g17\<close> reaches that number.
\<close>

theorem scope_stack_bound:
  "(list_all (\<lambda>i. a0 (inst_args i) < CPU_SIZE \<and> a1 (inst_args i) < CPU_SIZE) g
      \<longrightarrow> bounded (SetGenome (AvidaGP_new lib) g))
   \<and> (bounded hw \<longrightarrow>
        length (scope_stack hw) \<le> CPU_SIZE + 1
        \<and> (\<forall>hw'. SingleProcess hw = Inr hw' \<longrightarrow> bounded hw')
        \<and> (\<forall>n hw'. Process hw n = Inr hw' \<longrightarrow> bounded hw'))"
proof -
  have "stack_ok (SetGenome (AvidaGP_new lib) g)"
    using stack_ok_AvidaGP_new[of lib] by (simp add: stack_ok_def SetGenome_def)
  moreover have "depth_ok (SetGenome (AvidaGP_new lib) g)"
    by (simp add: depth_ok_def CurScope_def SetGenome_def AvidaGP_new_def Reset_def
        ResetHardware_def SetTrait_def resize_def)
  ultimately have
    "list_all (\<lambda>i. a0 (inst_args i) < CPU_SIZE \<and> a1 (inst_args i) < CPU_SIZE) g
      \<longrightarrow> bounded (SetGenome (AvidaGP_new lib) g)"
    by (simp add: bounded_def small_scopes_def SetGenome_def)
  then show ?thesis
    using bounded_length SingleProcess_bounded Process_bounded by blast
qed

theorem scope_stack_bound_witness:
  "bounded (loaded g17)
   \<and> (\<exists>hw. Process (loaded g17) 16 = Inr hw \<and> bounded hw
            \<and> length (scope_stack hw) = CPU_SIZE + 1)"
proof -
  have a: "bounded (loaded g17)"
    using scope_stack_bound[of g17 DefaultInstLib]
    by (simp add: loaded_def g17_def CPU_SIZE_def)
  obtain hw where p: "Process (loaded g17) 16 = Inr hw" and l: "length (scope_stack hw) = 17"
    by (simp add: run_simps g17_def)
  have "bounded hw" using scope_stack_bound[of g17 DefaultInstLib "loaded g17"] a p by blast
  then show ?thesis using a p l by (simp add: CPU_SIZE_def)
qed

subsection \<open>Countdown loops\<close>

lemma regs_inst_ptr_swap:
  "hw\<lparr>regs := \<rho>, inst_ptr := p\<rparr> = hw\<lparr>inst_ptr := p, regs := \<rho>\<rparr>"
  by simp

lemma size_t_inc_small: "n < 2 ^ 64 - 1 \<Longrightarrow> size_t_inc n = n + 1"
  by (simp add: size_t_inc_def)

lemma countdown_scan:
  assumes "countdown_loop hw r d body fs" and "j \<le> length body"
  shows "BypassScope_scan (left_at hw \<rho> j) (d + 1) = Inr (left_at hw \<rho> (length body))"
  using assms(2)
proof (induction "length body - j" arbitrary: j)
  case 0
  then have j: "j = length body" by simp
  from assms(1) obtain x c y z rest where c: "c \<le> d" "d < 2 ^ 64 - 1"
    and g: "genome hw = Instruction 14 (Args r d x) # body @ Instruction 16 (Args c y z) # rest"
    and lib: "inst_lib hw = DefaultInstLib"
    by (auto simp: countdown_loop_def)
  have n: "genome hw ! (length body + 1) = Instruction 16 (Args c y z)"
    using g by (simp add: nth_append)
  have s: "InstScope X (Instruction 16 (Args c y z)) = Inr (c + 1)"
    if "inst_lib X = DefaultInstLib" for X
    using that c by (simp add: InstScope_def catalog_simps arg_at_def size_t_inc_small)
  show ?case
    unfolding j
    using g n s c lib
    by (subst BypassScope_scan.simps) (simp add: left_at_def Let_def)
next
  case (Suc k)
  then have j: "j < length body" and k: "k = length body - Suc j" by simp_all
  from assms(1) obtain x c y z rest where
    g: "genome hw = Instruction 14 (Args r d x) # body @ Instruction 16 (Args c y z) # rest"
    and lib: "inst_lib hw = DefaultInstLib" and b: "list_all2 (reg_op r) body fs"
    by (auto simp: countdown_loop_def)
  have n: "genome hw ! (j + 1) = body ! j"
    using g j by (simp add: nth_append)
  from b j have "reg_op r (body ! j) (fs ! j)"
    by (simp add: list_all2_conv_all_nth)
  then have s: "InstScope X (body ! j) = Inr 0" if "inst_lib X = DefaultInstLib" for X
    using that by (simp add: reg_op_def)
  have "BypassScope_scan (left_at hw \<rho> j) (d + 1) = BypassScope_scan (left_at hw \<rho> (Suc j)) (d + 1)"
    using g n s j lib
    by (subst BypassScope_scan.simps) (simp add: left_at_def Let_def regs_inst_ptr_swap)
  also have "\<dots> = Inr (left_at hw \<rho> (length body))"
    using Suc.hyps(1)[OF k] j by simp
  finally show ?case .
qed

lemma countdown_loop_regs [simp]:
  "countdown_loop (hw\<lparr>regs := \<rho>\<rparr>) r d body fs = countdown_loop hw r d body fs"
  "countdown_loop (hw\<lparr>inst_ptr := p\<rparr>) r d body fs = countdown_loop hw r d body fs"
  by (simp_all add: countdown_loop_def CurScope_def GetTrait_def)

lemma ProcessInst_Countdown:
  "inst_lib hw = DefaultInstLib \<Longrightarrow> ProcessInst hw (Instruction 14 a) = Inst_Countdown hw a"
  by (subst ProcessInst.simps) (simp add: catalog_simps)

lemma ProcessInst_Scope:
  "inst_lib hw = DefaultInstLib \<Longrightarrow> ProcessInst hw (Instruction 16 a) = Inst_Scope hw a"
  by (subst ProcessInst.simps) (simp add: catalog_simps)

text \<open>Dispatching the \<open>Countdown\<close> at the head of the loop, from outside the loop.\<close>

lemma countdown_head:
  assumes "countdown_loop hw r d body fs"
    and "genome hw ! 0 = i"
  shows "ProcessInst (at_head hw \<rho>) i =
           (if \<rho> r \<noteq> 0 then Inr (inside hw d (\<rho>(r := double_round (\<rho> r - 1))) 0)
            else Inr (left_at hw \<rho> (length body)))"
proof -
  from assms(1) obtain x c y z rest where
    g: "genome hw = Instruction 14 (Args r d x) # body @ Instruction 16 (Args c y z) # rest"
    and lib: "inst_lib hw = DefaultInstLib" and r: "r < CPU_SIZE" and d: "d < 2 ^ 64 - 1"
    and ss: "scope_stack hw \<noteq> []" "CurScope hw < d + 1" "length (scope_stack hw) < CPU_SIZE"
    and rs: "reg_stack hw = [] \<or> RegBackup.scope (last (reg_stack hw)) \<noteq> d + 1"
    by (auto simp: countdown_loop_def)
  have i: "i = Instruction 14 (Args r d x)"
    using assms(2) g by simp
  let ?in = "(at_head hw \<rho>)\<lparr>scope_stack := scope_stack hw @ [loop_frame d]\<rparr>"
  have u: "UpdateScope (at_head hw \<rho>) d LOOP = Inr (True, ?in)"
    using ss d
    by (subst UpdateScope.simps)
       (simp add: at_head_def loop_frame_def CurScope_def size_t_inc_small Let_def)
  have er: "ExitScope_restore ?in = Inr ?in"
    using rs by (subst ExitScope_restore.simps) (auto simp: at_head_def CurScope_def loop_frame_def)
  have e: "ExitScope ?in = Inr (left_at hw \<rho> 0)"
    using ss er by (simp add: ExitScope_def) (simp add: at_head_def left_at_def)
  have b: "BypassScope ?in d = Inr (left_at hw \<rho> (length body))"
    using d e countdown_scan[OF assms(1), of 0 \<rho>]
    by (simp add: BypassScope_def size_t_inc_small CurScope_def) (simp add: at_head_def loop_frame_def)
  have p: "ProcessInst (at_head hw \<rho>) i = Inst_Countdown (at_head hw \<rho>) (Args r d x)"
    unfolding i using lib by (intro ProcessInst_Countdown) (simp add: at_head_def)
  have rd: "reg_read ?in r = Inr (\<rho> r)"
    using r by (simp add: reg_read_def at_head_def)
  show ?thesis
  proof (cases "\<rho> r = 0")
    case True
    then show ?thesis
      unfolding p by (simp add: u rd b)
  next
    case False
    have "reg_write ?in r (double_round (\<rho> r - 1))
            = Inr (inside hw d (\<rho>(r := double_round (\<rho> r - 1))) 0)"
      using r by (simp add: reg_write_def at_head_def inside_def)
    with False show ?thesis
      unfolding p by (simp add: u rd)
  qed
qed

lemma countdown_first_step:
  assumes "countdown_loop hw r d body fs"
  shows "SingleProcess (at_head hw \<rho>) =
           (if \<rho> r \<noteq> 0 then Inr (inside hw d (\<rho>(r := double_round (\<rho> r - 1))) 1)
            else Inr (left_at hw \<rho> (length body + 1)))"
proof -
  from assms obtain x c y z rest where
    g: "genome hw = Instruction 14 (Args r d x) # body @ Instruction 16 (Args c y z) # rest"
    by (auto simp: countdown_loop_def)
  have "GetInst (at_head hw \<rho>) 0 = Inr (genome hw ! 0)"
    using g by (simp add: GetInst_def at_head_def)
  then have "SingleProcess (at_head hw \<rho>) =
      ebind (ProcessInst (at_head hw \<rho>) (genome hw ! 0))
        (\<lambda>hw2. Inr (hw2\<lparr>inst_ptr := inst_ptr hw2 + 1\<rparr>))"
    using g by (simp add: SingleProcess_def) (simp add: at_head_def)
  then show ?thesis
    unfolding countdown_head[OF assms refl]
    by (simp add: inside_def left_at_def)
qed

lemma countdown_body_step:
  assumes "countdown_loop hw r d body fs" and "j < length body"
  shows "SingleProcess (inside hw d \<rho> (Suc j)) = Inr (inside hw d ((fs ! j) \<rho>) (Suc (Suc j)))"
proof -
  from assms(1) obtain x c y z rest where
    g: "genome hw = Instruction 14 (Args r d x) # body @ Instruction 16 (Args c y z) # rest"
    and lib: "inst_lib hw = DefaultInstLib" and b: "list_all2 (reg_op r) body fs"
    by (auto simp: countdown_loop_def)
  from b assms(2) have "reg_op r (body ! j) (fs ! j)"
    by (simp add: list_all2_conv_all_nth)
  then have p: "ProcessInst X (body ! j) = Inr (X\<lparr>regs := (fs ! j) (regs X)\<rparr>)"
    if "inst_lib X = DefaultInstLib" for X
    using that by (simp add: reg_op_def)
  have "GetInst (inside hw d \<rho> (Suc j)) (Suc j) = Inr (body ! j)"
    using g assms(2) by (simp add: GetInst_def inside_def nth_append)
  then show ?thesis
    using g assms(2) lib
    by (simp add: SingleProcess_def inside_def p)
qed

lemma countdown_closing_step:
  assumes "countdown_loop hw r d body fs"
  shows "SingleProcess (inside hw d \<rho> (Suc (length body))) =
           (if \<rho> r \<noteq> 0 then Inr (inside hw d (\<rho>(r := double_round (\<rho> r - 1))) 1)
            else Inr (left_at hw \<rho> (length body + 1)))"
proof -
  from assms obtain x c y z rest where c: "c \<le> d" "d < 2 ^ 64 - 1"
    and g: "genome hw = Instruction 14 (Args r d x) # body @ Instruction 16 (Args c y z) # rest"
    and lib: "inst_lib hw = DefaultInstLib"
    and ss: "scope_stack hw \<noteq> []" "length (scope_stack hw) < CPU_SIZE"
    and rs: "reg_stack hw = [] \<or> RegBackup.scope (last (reg_stack hw)) \<noteq> d + 1"
    by (auto simp: countdown_loop_def)
  let ?in = "inside hw d \<rho> (Suc (length body))"
  have gi: "GetInst ?in (Suc (length body)) = Inr (Instruction 16 (Args c y z))"
    using g by (simp add: GetInst_def inside_def nth_append)
  have l: "scope_stack ?in \<noteq> []" "size_t_inc c \<le> CurScope ?in" "CurScopeType ?in = LOOP"
    "start_pos (last (scope_stack ?in)) = 0"
    using c by (simp_all add: inside_def loop_frame_def CurScope_def CurScopeType_def
        size_t_inc_small)
  have er: "ExitScope_restore (?in\<lparr>inst_ptr := 0\<rparr>) = Inr (?in\<lparr>inst_ptr := 0\<rparr>)"
    using rs by (subst ExitScope_restore.simps) (auto simp: inside_def CurScope_def loop_frame_def)
  have e: "ExitScope (?in\<lparr>inst_ptr := 0\<rparr>) = Inr (at_head hw \<rho>)"
    using ss er by (simp add: ExitScope_def) (simp add: inside_def at_head_def)
  have g0: "GetInst (at_head hw \<rho>) 0 = Inr (genome hw ! 0)"
    using g by (simp add: GetInst_def at_head_def)
  have u: "UpdateScope ?in c BASIC =
             ebind (ProcessInst (at_head hw \<rho>) (genome hw ! 0)) (\<lambda>hw2. Inr (False, hw2))"
    unfolding UpdateScope_LOOP[OF l(1,2,3)] l(4) by (simp add: e g0)
  have "ProcessInst ?in (Instruction 16 (Args c y z)) = Inst_Scope ?in (Args c y z)"
    using lib by (intro ProcessInst_Scope) (simp add: inside_def)
  then have "SingleProcess ?in =
      ebind (ProcessInst (at_head hw \<rho>) (genome hw ! 0))
        (\<lambda>hw2. Inr (hw2\<lparr>inst_ptr := inst_ptr hw2 + 1\<rparr>))"
    using g gi u
    by (simp add: SingleProcess_def) (auto simp add: inside_def split: sum.splits)
  then show ?thesis
    unfolding countdown_head[OF assms refl]
    by (simp add: inside_def left_at_def)
qed

lemma Process_running:
  assumes "GetTrait hw 100 = Inr t" "t \<noteq> 1" and "SingleProcess hw = Inr hw'"
  shows "Process hw (Suc n) = Process hw' n"
  using assms by simp

lemma GetTrait_inside [simp]:
  "GetTrait (inside hw d \<rho> p) 100 = GetTrait hw 100"
  "GetTrait (at_head hw \<rho>) 100 = GetTrait hw 100"
  "GetTrait (left_at hw \<rho> p) 100 = GetTrait hw 100"
  by (simp_all add: GetTrait_def inside_def at_head_def left_at_def)

lemma fold_keeps_guard:
  assumes "\<forall>f\<in>set fs. \<forall>\<rho>. f \<rho> r = \<rho> r"
  shows "fold (\<lambda>f \<rho>. f \<rho>) fs \<rho> r = \<rho> r"
  using assms by (induction fs arbitrary: \<rho>) simp_all

lemma countdown_loop_guard:
  assumes "countdown_loop hw r d body fs"
  shows "\<forall>f\<in>set fs. \<forall>\<rho>. f \<rho> r = \<rho> r" and "length fs = length body"
proof -
  from assms have b: "list_all2 (reg_op r) body fs"
    by (simp add: countdown_loop_def)
  then show "length fs = length body"
    by (simp add: list_all2_lengthD)
  from b show "\<forall>f\<in>set fs. \<forall>\<rho>. f \<rho> r = \<rho> r"
    by (auto simp: list_all2_conv_all_nth in_set_conv_nth reg_op_def)
qed

lemma countdown_body_run:
  assumes "countdown_loop hw r d body fs" and "j \<le> length body"
  shows "Process (inside hw d \<rho> (Suc j)) (length body - j + m)
           = Process (inside hw d (fold (\<lambda>f \<rho>. f \<rho>) (drop j fs) \<rho>) (Suc (length body))) m"
  using assms(2)
proof (induction "length body - j" arbitrary: j \<rho>)
  case 0
  then have "j = length body" by simp
  then show ?case
    using countdown_loop_guard(2)[OF assms(1)] by simp
next
  case (Suc k)
  then have j: "j < length body" and k: "k = length body - Suc j" by simp_all
  from assms(1) obtain t where t: "GetTrait hw 100 = Inr t" "t \<noteq> 1"
    by (auto simp: countdown_loop_def)
  have l: "length fs = length body"
    by (rule countdown_loop_guard(2)[OF assms(1)])
  have d: "drop j fs = fs ! j # drop (Suc j) fs"
    using j l by (simp add: Cons_nth_drop_Suc)
  have "Process (inside hw d \<rho> (Suc j)) (Suc (k + m))
        = Process (inside hw d ((fs ! j) \<rho>) (Suc (Suc j))) (k + m)"
    by (rule Process_running[OF _ t(2) countdown_body_step[OF assms(1) j]]) (simp add: t)
  also have "\<dots> = Process (inside hw d (fold (\<lambda>f \<rho>. f \<rho>) (drop (Suc j) fs) ((fs ! j) \<rho>))
                          (Suc (length body))) m"
    using Suc.hyps(1)[OF k, of "(fs ! j) \<rho>"] j k by simp
  also have "fold (\<lambda>f \<rho>. f \<rho>) (drop (Suc j) fs) ((fs ! j) \<rho>) = fold (\<lambda>f \<rho>. f \<rho>) (drop j fs) \<rho>"
    by (simp add: d)
  finally have F: "Process (inside hw d \<rho> (Suc j)) (Suc (k + m))
        = Process (inside hw d (fold (\<lambda>f \<rho>. f \<rho>) (drop j fs) \<rho>) (Suc (length body))) m" .
  have eq: "length body - j + m = Suc (k + m)"
    using Suc.hyps(2) by simp
  show ?case
    unfolding eq by (rule F)
qed

lemma countdown_passes_general:
  assumes "countdown_loop hw r d body fs" and "\<rho> r = real k" and "k \<le> 2 ^ 53"
  shows "Process (inside hw d \<rho> (Suc (length body))) (k * (length body + 1) + 1)
           = Inr (left_at hw ((loop_pass r fs ^^ k) \<rho>) (length body + 1))"
  using assms(2,3)
proof (induction k arbitrary: \<rho>)
  case 0
  from assms(1) obtain t where t: "GetTrait hw 100 = Inr t" "t \<noteq> 1"
    by (auto simp: countdown_loop_def)
  have "SingleProcess (inside hw d \<rho> (Suc (length body))) = Inr (left_at hw \<rho> (length body + 1))"
    using 0 by (simp add: countdown_closing_step[OF assms(1)])
  from Process_running[OF _ t(2) this, of 0] t(1) show ?case
    by simp
next
  case (Suc k)
  from assms(1) obtain t where t: "GetTrait hw 100 = Inr t" "t \<noteq> 1"
    by (auto simp: countdown_loop_def)
  let ?n = "length body"
  let ?\<rho>1 = "\<rho>(r := double_round (\<rho> r - 1))"
  have s: "SingleProcess (inside hw d \<rho> (Suc ?n)) = Inr (inside hw d ?\<rho>1 1)"
    using Suc.prems by (simp add: countdown_closing_step[OF assms(1)])
  have k: "k \<le> 2 ^ 53" using Suc.prems(2) by simp
  have g: "loop_pass r fs \<rho> r = real k"
    using Suc.prems(1) fold_keeps_guard[OF countdown_loop_guard(1)[OF assms(1)]]
    by (simp add: loop_pass_def double_round_real[OF k])
  have "Process (inside hw d \<rho> (Suc ?n)) (Suc (?n - 0 + (k * (?n + 1) + 1)))
        = Process (inside hw d ?\<rho>1 (Suc 0)) (?n - 0 + (k * (?n + 1) + 1))"
    by (rule Process_running[OF _ t(2)]) (simp_all add: t(1) s)
  also have "\<dots> = Process (inside hw d (fold (\<lambda>f \<rho>. f \<rho>) (drop 0 fs) ?\<rho>1) (Suc ?n))
                        (k * (?n + 1) + 1)"
    by (rule countdown_body_run[OF assms(1)]) simp
  also have "\<dots> = Process (inside hw d (loop_pass r fs \<rho>) (Suc ?n)) (k * (?n + 1) + 1)"
    by (simp add: loop_pass_def del: Process.simps)
  also have "\<dots> = Inr (left_at hw ((loop_pass r fs ^^ k) (loop_pass r fs \<rho>)) (?n + 1))"
    using Suc.IH[of "loop_pass r fs \<rho>"] g k by blast
  also have "(loop_pass r fs ^^ k) (loop_pass r fs \<rho>) = (loop_pass r fs ^^ Suc k) \<rho>"
    by (simp add: funpow_swap1)
  finally have F: "Process (inside hw d \<rho> (Suc ?n)) (Suc (?n - 0 + (k * (?n + 1) + 1)))
        = Inr (left_at hw ((loop_pass r fs ^^ Suc k) \<rho>) (?n + 1))" .
  have eq: "Suc k * (?n + 1) + 1 = Suc (?n - 0 + (k * (?n + 1) + 1))"
    by simp
  show ?case
    unfolding eq by (rule F)
qed

text \<open>
  A countdown loop whose body opens no scope. Let the guard register hold a whole number
  \<open>V\<close> of at most \<open>2^53\<close> when the machine stands on the \<open>Countdown\<close> of a loop whose
  body has \<open>n\<close> instructions, none of which opens a scope or writes the guard. Then
  \<open>V (n + 1) + 1\<close> steps later the machine has left the loop, the pointer on the closing
  instruction, and the registers are those of \<open>V\<close> passes, each decrementing the guard and
  running the body once; the guard is 0. With \<open>V = 0\<close> that is after the first step, the
  body not having run. Nothing else of the state has changed.
\<close>

lemma Countdown_flat_body_V_times:
  assumes "countdown_loop hw r d body fs" and "inst_ptr hw = 0" and "regs hw r = real V"
    and "V \<le> 2 ^ 53"
  shows "Process hw (V * (length body + 1) + 1)
           = Inr (hw\<lparr>inst_ptr := length body + 1, regs := (loop_pass r fs ^^ V) (regs hw)\<rparr>)
       \<and> (loop_pass r fs ^^ V) (regs hw) r = 0"
proof -
  let ?n = "length body"
  from assms(1) obtain t where t: "GetTrait hw 100 = Inr t" "t \<noteq> 1"
    by (auto simp: countdown_loop_def)
  have hw: "at_head hw (regs hw) = hw"
    using assms(2) by (simp add: at_head_def)
  have keep: "loop_pass r fs \<rho> r = double_round (\<rho> r - 1)" for \<rho>
    using fold_keeps_guard[OF countdown_loop_guard(1)[OF assms(1)]] by (simp add: loop_pass_def)
  have guard: "(loop_pass r fs ^^ k) \<rho> r = real (m - k)"
    if "\<rho> r = real m" "k \<le> m" "m \<le> 2 ^ 53" for k m \<rho>
    using that
  proof (induction k)
    case 0
    then show ?case by simp
  next
    case (Suc k)
    have a: "(loop_pass r fs ^^ k) \<rho> r = real (m - k)"
      using Suc by simp
    have b: "real (m - k) - 1 = real (m - Suc k)"
      using Suc.prems(2) by (simp add: of_nat_diff)
    have c: "m - Suc k \<le> 2 ^ 53"
      using Suc.prems(3) by simp
    have "(loop_pass r fs ^^ Suc k) \<rho> r = double_round ((loop_pass r fs ^^ k) \<rho> r - 1)"
      by (simp add: keep)
    also have "\<dots> = double_round (real (m - Suc k))"
      unfolding a b ..
    also have "\<dots> = real (m - Suc k)"
      by (rule double_round_real[OF c])
    finally show ?case .
  qed
  have run: "Process hw (V * (?n + 1) + 1) = Inr (left_at hw ((loop_pass r fs ^^ V) (regs hw)) (?n + 1))"
  proof (cases V)
    case 0
    have "SingleProcess hw = Inr (left_at hw (regs hw) (?n + 1))"
      using countdown_first_step[OF assms(1), of "regs hw"] assms(3) 0 by (simp add: hw)
    from Process_running[OF t this, of 0] show ?thesis
      using 0 by simp
  next
    case (Suc k)
    let ?\<rho>1 = "(regs hw)(r := double_round (regs hw r - 1))"
    have k: "k \<le> 2 ^ 53" using assms(4) Suc by simp
    have s: "SingleProcess hw = Inr (inside hw d ?\<rho>1 1)"
      using countdown_first_step[OF assms(1), of "regs hw"] assms(3) Suc by (simp add: hw)
    have g: "loop_pass r fs (regs hw) r = real k"
      using assms(3) Suc by (simp add: keep double_round_real[OF k])
    have "Process hw (Suc (?n - 0 + (k * (?n + 1) + 1)))
          = Process (inside hw d ?\<rho>1 (Suc 0)) (?n - 0 + (k * (?n + 1) + 1))"
      by (rule Process_running[OF t]) (simp add: s)
    also have "\<dots> = Process (inside hw d (fold (\<lambda>f \<rho>. f \<rho>) (drop 0 fs) ?\<rho>1) (Suc ?n))
                          (k * (?n + 1) + 1)"
      by (rule countdown_body_run[OF assms(1)]) simp
    also have "fold (\<lambda>f \<rho>. f \<rho>) (drop 0 fs) ?\<rho>1 = loop_pass r fs (regs hw)"
      by (simp add: loop_pass_def)
    also have "Process (inside hw d (loop_pass r fs (regs hw)) (Suc ?n)) (k * (?n + 1) + 1)
               = Inr (left_at hw ((loop_pass r fs ^^ k) (loop_pass r fs (regs hw))) (?n + 1))"
      using countdown_passes_general[OF assms(1), of "loop_pass r fs (regs hw)" k] g k by blast
    also have "(loop_pass r fs ^^ k) (loop_pass r fs (regs hw)) = (loop_pass r fs ^^ Suc k) (regs hw)"
      by (simp add: funpow_swap1)
    finally have F: "Process hw (Suc (?n - 0 + (k * (?n + 1) + 1)))
          = Inr (left_at hw ((loop_pass r fs ^^ Suc k) (regs hw)) (?n + 1))" .
    have eq: "V * (?n + 1) + 1 = Suc (?n - 0 + (k * (?n + 1) + 1))"
      using Suc by simp
    show ?thesis
      unfolding eq using F Suc by simp
  qed
  from run guard[of "regs hw" V V] assms(3,4) show ?thesis
    by (simp add: left_at_def)
qed

lemma reg_op_Inc:
  assumes "a < CPU_SIZE" "a \<noteq> r"
  shows "reg_op r (Instruction 0 (Args a b c)) (\<lambda>\<rho>. \<rho>(a := \<rho> a + 1))"
  using assms
  by (simp add: reg_op_def ProcessInst.simps catalog_simps Inst_Inc_def reg_read_def
      reg_write_def InstScope_def)

text \<open>
  The loop \<open>Countdown 2 0; Inc 1; Scope 0\<close> started with 2 in the guard: the body has run
  twice when the loop is left after five steps, and the run goes on behind the loop.
\<close>

lemma Countdown_flat_body_V_times_example:
  "countdown_loop (countdown_start (real 2)) 2 0 [Instruction 0 (Args 1 0 0)]
     [\<lambda>\<rho>. \<rho>(1 := \<rho> 1 + 1)]
   \<and> inst_ptr (countdown_start (real 2)) = 0
   \<and> regs (countdown_start (real 2)) 2 = real 2
   \<and> Process (countdown_start (real 2)) 5 = Inr (after_loop 2)
   \<and> Process (countdown_start (real 2)) 7
       = Inr ((loaded gL)\<lparr>inst_ptr := 4,
            scope_stack := [\<lparr>ScopeInfo.scope = 0, type = ROOT, start_pos = 0\<rparr>,
                            \<lparr>ScopeInfo.scope = 1, type = BASIC, start_pos = 2\<rparr>],
            regs := (regs (loaded gL))(1 := 2, 2 := 0, 3 := 4)\<rparr>)"
proof -
  let ?hw = "countdown_start (real 2)"
  let ?f = "\<lambda>\<rho>::nat \<Rightarrow> real. \<rho>(1 := \<rho> 1 + 1)"
  have op: "reg_op 2 (Instruction 0 (Args 1 0 0)) ?f"
    by (rule reg_op_Inc) (simp_all add: CPU_SIZE_def)
  have g: "genome ?hw = Instruction 14 (Args 2 0 0) # [Instruction 0 (Args 1 0 0)]
             @ Instruction 16 (Args 0 0 0) # [Instruction 0 (Args 3 0 0)]"
    by (simp add: countdown_start_def loaded_simps gL_def)
  have e: "\<exists>x c y z rest. c \<le> (0::nat) \<and> genome ?hw
             = Instruction 14 (Args 2 0 x) # [Instruction 0 (Args 1 0 0)]
               @ Instruction 16 (Args c y z) # rest"
    using g by blast
  have 1: "countdown_loop ?hw 2 0 [Instruction 0 (Args 1 0 0)] [?f]"
    unfolding countdown_loop_def
    using op e
    by (simp add: countdown_start_def loaded_simps CurScope_def CPU_SIZE_def GetTrait_def
        vec_at_def del: append.simps)
  have 2: "inst_ptr ?hw = 0" "regs ?hw 2 = real 2" "(2::nat) \<le> 2 ^ 53"
    by (simp_all add: countdown_start_def loaded_simps)
  have p: "(loop_pass 2 [?f] ^^ 2) (regs ?hw) = (regs (loaded gL))(1 := 2, 2 := 0)"
    by (simp add: loop_pass_def numeral_2_eq_2 countdown_start_def loaded_simps fun_eq_iff)
  from Countdown_flat_body_V_times [OF 1 2]
  have "Process ?hw (2 * (length [Instruction 0 (Args 1 0 0)] + 1) + 1)
          = Inr (?hw\<lparr>inst_ptr := length [Instruction 0 (Args 1 0 0)] + 1,
                      regs := (loop_pass 2 [?f] ^^ 2) (regs ?hw)\<rparr>)"
    by blast
  then have 3: "Process ?hw 5 = Inr (after_loop 2)"
    unfolding p by (simp add: after_loop_def countdown_start_def del: Process.simps)
  have "Process ?hw (5 + 2) = ebind (Process ?hw 5) (\<lambda>hw'. Process hw' 2)"
    by (rule Process_add)
  then have 4: "Process ?hw 7
       = Inr ((loaded gL)\<lparr>inst_ptr := 4,
            scope_stack := [\<lparr>ScopeInfo.scope = 0, type = ROOT, start_pos = 0\<rparr>,
                            \<lparr>ScopeInfo.scope = 1, type = BASIC, start_pos = 2\<rparr>],
            regs := (regs (loaded gL))(1 := 2, 2 := 0, 3 := 4)\<rparr>)"
    unfolding 3 by (simp add: after_loop_continues del: Process.simps)
  show ?thesis
    using 1 2 3 4 by simp
qed

text \<open>
  Above \<open>2^53\<close> the count is lost: with \<open>2^54\<close> in the guard the first pass leaves the
  guard as it is, so every later pass finds the same value and the loop is never left.
\<close>

lemma Countdown_guard_stuck:
  "SingleProcess (countdown_start (2 ^ 54)) = Inr (in_loop (2 ^ 54) 0 1)"
proof -
  have "double_round (18014398509481984 - 1) = 18014398509481984"
    using double_round_stuck by simp
  then show ?thesis
    by (simp add: step_simps loaded_simps loop_simps)
qed

text \<open>
  Claim C6. A countdown loop does not always run its body as many times as its guard
  says. In \<open>Countdown 2 0; If 1 1; Inc 4; Scope 0; Inc 3\<close> the loop has depth 1, its body
  is the conditional of depth 2 with \<open>Inc 4\<close>, and \<open>Scope 0\<close> closes it. On the machine as
  constructed the guard, register 2, holds 2, so the body should run twice before
  \<open>Inc 3\<close>. It runs once. At \<open>Scope 0\<close> the machine is in the scope of the conditional;
  \<open>UpdateScope\<close> leaves that scope and calls itself with the depth it has already
  incremented, so the second call asks for depth 2, finds it deeper than the loop, and
  opens a new scope instead of closing the loop. After five steps \<open>Inc 4\<close> has run once
  and \<open>Inc 3\<close>, the instruction behind the loop, has run with 1 left in the guard.
\<close>

theorem Countdown_nested_scope_runs_body_once:
  "regs (loaded gN) 2 = 2
   \<and> Process (loaded gN) 3 = Inr gN_close
   \<and> SingleProcess gN_close = Inr gN_opened
   \<and> Process (loaded gN) 5 = Inr gN_end
   \<and> regs gN_end 2 = 1
   \<and> regs gN_end 4 = regs (loaded gN) 4 + 1
   \<and> regs gN_end 3 = regs (loaded gN) 3 + 1"
  by (simp add: run_simps gN_def gN_close_def gN_opened_def gN_end_def fun_eq_iff)

end
